theory Spec2Isabelle
  imports Complex_Main "HOL-Library.Sublist"
begin

section \<open>Data model\<close>

text \<open>
  The console of the car is a set of browser scripts: \<^verbatim>\<open>controls.js\<close> (joystick, speed slider,
  keyboard, \<^verbatim>\<open>setMovement\<close>, \<^verbatim>\<open>sendMovementCommand\<close>), \<^verbatim>\<open>voice.js\<close>
  (\<^verbatim>\<open>executeVoiceCommand\<close>), \<^verbatim>\<open>main.js\<close> (\<^verbatim>\<open>callApi\<close>) and \<^verbatim>\<open>map.js\<close>
  (\<^verbatim>\<open>startNavigation\<close>). All of them run on one event loop, so every handler is a function
  from the state of the page to the state of the page.

  JavaScript numbers are IEEE doubles: pointer coordinates, angles and distances are the real
  numbers that finite doubles denote, and every operation on them is rounded (section
  ``Numbers''); speeds are integers (\<^verbatim>\<open>parseInt\<close> of a range input, \<^verbatim>\<open>Math.round\<close> of
  a product). The state has what the
  handlers read and write: \<^verbatim>\<open>preventDefault\<close>, the colours of the styles and the animation of
  the voice wave are left out.
\<close>

datatype direction = Forward | Backward | Left | Right | Stop

text \<open>The object \<^verbatim>\<open>currentMovement\<close> local to \<^verbatim>\<open>initMovementControls\<close>.\<close>

record movement =
  angle :: real
  distance :: real
  speed :: int

text \<open>
  \<^verbatim>\<open>setMovement\<close> is a top-level function: the \<^verbatim>\<open>currentMovement\<close> it assigns is not the
  variable of the closure above but a property of the global object. For a direction other
  than stop the object literal has no \<^verbatim>\<open>angle\<close> and no \<^verbatim>\<open>distance\<close>.
\<close>

record global_movement =
  g_angle :: "real option"
  g_distance :: "real option"
  g_direction :: direction
  g_speed :: int

text \<open>Requests handed to \<^verbatim>\<open>fetch\<close>: the url, the method and the data that is stringified.\<close>

datatype payload =
    MovementData direction int
  | MapData string "string option"
  | VoiceData string

record request =
  req_url :: string
  req_method :: string
  req_body :: "payload option"

text \<open>The envelope of a reply: \<^verbatim>\<open>{success, error, data: {response}}\<close>.\<close>

record api_response =
  success :: bool
  err :: "string option"
  reply :: "string option"

text \<open>
  What \<^verbatim>\<open>await fetch(url, options)\<close> and \<^verbatim>\<open>await response.json()\<close> can give: the
  promise of \<^verbatim>\<open>fetch\<close> rejects (no connection), or there is a response with its
  \<^verbatim>\<open>ok\<close> flag and status, whose body does not parse as JSON, or is \<^verbatim>\<open>null\<close>, or is
  an object read as an envelope.
\<close>

datatype json_outcome = BadJson string | JsonNull | Json api_response

datatype fetch_outcome = Rejected string | Responded bool nat json_outcome

datatype console_entry =
    LogSending direction int
  | LogMovementSent
  | ErrMovementFailed "string option"
  | ErrMovementError string
  | ErrApiCall string
  | LogNavigating string
  | ErrNoDestination
  | LogNavigationStarted
  | ErrNavigationFailed "string option"
  | ErrNavigationError string
  | LogProcessingVoice string
  | ErrVoiceFailed "string option"
  | ErrVoiceError string
  | LogAIResponse string
  | LogSavingMap
  | LogMapSaved
  | ErrSaveFailed "string option"
  | ErrSaveError string
  | LogLoadingMap
  | LogMapLoaded
  | ErrLoadFailed "string option"
  | ErrLoadError string
  | Uncaught string

text \<open>The callbacks given to \<^verbatim>\<open>setTimeout\<close>.\<close>

datatype callback =
    ClearTransition
  | ClickStopBtn
  | DisplayReply "string option"

datatype pointer = MouseEv real real | TouchEv "(real \<times> real) list"

record key_event =
  ev_key :: string
  ev_target :: string

record state =
  currentMovement :: movement
  isDragging :: bool
  startX :: real
  startY :: real
  currentX :: real
  currentY :: real
  window_currentMovement :: "global_movement option"
  base_center :: "real \<times> real"
  handle_transition :: string
  handle_translate :: "real \<times> real"
  slider_value :: int
  speed_text :: int
  buttons :: "direction list"
  lit :: "direction list"
  dest_options :: "string list"
  dest_value :: string
  voice_output :: string
  window_currentMap :: "string option option"
  now :: nat
  timers :: "(nat \<times> callback) list"
  requests :: "request list"
  console :: "console_entry list"

text \<open>
  \<open>buttons\<close> lists the direction buttons (\<^verbatim>\<open>forward-btn\<close>, \<^verbatim>\<open>left-btn\<close>,
  \<^verbatim>\<open>right-btn\<close>, \<^verbatim>\<open>backward-btn\<close>, \<^verbatim>\<open>stop-btn\<close>) that the document has, so that
  \<^verbatim>\<open>getElementById\<close> of a missing one is \<^verbatim>\<open>null\<close>; \<open>lit\<close> lists those whose
  highlight style is set. The elements the scripts look up at start-up (joystick container,
  speed slider, destination select, navigate and mapping buttons) are in the page.
  \<open>base_center\<close> is the centre of the bounding rectangle of the joystick base.
  \<open>window_currentMap\<close> is the global that \<^verbatim>\<open>loadMap\<close> assigns.
\<close>

text \<open>
  A handler either returns or throws; what it wrote to the state before throwing stays
  written.
\<close>

datatype outcome = Normal state | Thrown string state

definition then_run :: "outcome \<Rightarrow> (state \<Rightarrow> outcome) \<Rightarrow> outcome" where
  "then_run r f = (case r of Normal s \<Rightarrow> f s | Thrown e s \<Rightarrow> Thrown e s)"

text \<open>The state a handler leaves behind, however it ends.\<close>

fun state_of :: "outcome \<Rightarrow> state" where
  "state_of (Normal s) = s"
| "state_of (Thrown e s) = s"

text \<open>An exception that leaves an event listener or a timer callback is reported, not propagated.\<close>

definition uncaught :: "outcome \<Rightarrow> state" where
  "uncaught r = (case r of Normal s \<Rightarrow> s
     | Thrown e s \<Rightarrow> s\<lparr>console := console s @ [Uncaught e]\<rparr>)"

definition log :: "console_entry \<Rightarrow> state \<Rightarrow> state" where
  "log c s = s\<lparr>console := console s @ [c]\<rparr>"

definition setTimeout :: "callback \<Rightarrow> nat \<Rightarrow> state \<Rightarrow> state" where
  "setTimeout cb ms s = s\<lparr>timers := timers s @ [(now s + ms, cb)]\<rparr>"

section \<open>The API adapter (main.js)\<close>

definition baseUrl :: string where
  "baseUrl = ''http://localhost:5000/api''"

definition endpoint_movement :: string where
  "endpoint_movement = ''/movement''"

definition endpoint_map :: string where
  "endpoint_map = ''/map''"

definition endpoint_voice :: string where
  "endpoint_voice = ''/voice''"

fun string_of_nat :: "nat \<Rightarrow> string" where
  "string_of_nat n = (if n < 10 then [char_of (48 + n)]
     else string_of_nat (n div 10) @ [char_of (48 + n mod 10)])"

declare string_of_nat.simps [simp del]

text \<open>
  \<^verbatim>\<open>callApi\<close> up to its first \<^verbatim>\<open>await\<close>: the url and the options are built and
  \<^verbatim>\<open>fetch\<close> is called, all within the caller's turn of the event loop.
\<close>

definition callApi_send :: "string \<Rightarrow> string \<Rightarrow> payload option \<Rightarrow> state \<Rightarrow> state" where
  "callApi_send endpoint method data s =
     s\<lparr>requests := requests s @
        [\<lparr>req_url = baseUrl @ endpoint, req_method = method, req_body = data\<rparr>]\<rparr>"

text \<open>
  The rest of the \<^verbatim>\<open>try\<close> block once \<^verbatim>\<open>fetch\<close> has settled; \<open>Inl m\<close> is an
  \<^verbatim>\<open>Error\<close> with message \<open>m\<close> thrown inside the block.
\<close>

definition callApi_try :: "fetch_outcome \<Rightarrow> string + api_response option" where
  "callApi_try fo = (case fo of
       Rejected m \<Rightarrow> Inl m
     | Responded ok status body \<Rightarrow>
         if \<not> ok then Inl (''API call failed: '' @ string_of_nat status)
         else (case body of BadJson m \<Rightarrow> Inl m | JsonNull \<Rightarrow> Inr None | Json r \<Rightarrow> Inr (Some r)))"

text \<open>The object \<^verbatim>\<open>{ success: false, error: error.message }\<close> of the \<^verbatim>\<open>catch\<close> block.\<close>

definition failure_envelope :: "string \<Rightarrow> api_response" where
  "failure_envelope m = \<lparr>success = False, err = Some m, reply = None\<rparr>"

text \<open>
  What the promise of \<^verbatim>\<open>callApi\<close> settles to: \<open>Inr v\<close> when it resolves with the value \<open>v\<close>
  (\<open>None\<close> is \<^verbatim>\<open>null\<close>), \<open>Inl m\<close> when it rejects. The \<^verbatim>\<open>catch\<close> block logs and
  returns the failure envelope.
\<close>

definition callApi_settle ::
  "fetch_outcome \<Rightarrow> state \<Rightarrow> (string + api_response option) \<times> state" where
  "callApi_settle fo s = (case callApi_try fo of
       Inl m \<Rightarrow> (Inr (Some (failure_envelope m)), log (ErrApiCall m) s)
     | Inr v \<Rightarrow> (Inr v, s))"

section \<open>Numbers\<close>

text \<open>
  A JavaScript number is an IEEE 754 double. A finite double is modelled as the real number
  it denotes, and an arithmetic operation as the exact operation on real numbers followed by
  the rounding \<open>fl\<close> to the nearest double, a tie going to the even significand: 53 bits
  of significand, exponents from \<open>-1022\<close> on, subnormal numbers below. Infinities, NaN and
  the sign of zero are not modelled: the coordinates of a pointer are far from the largest
  double, and the difference of two equal coordinates is \<open>+0\<close>.
\<close>

definition round_even :: "real \<Rightarrow> int" where
  "round_even r =
     (let f = \<lfloor>r\<rfloor> in
      if r - of_int f < 1 / 2 then f
      else if 1 / 2 < r - of_int f then f + 1
      else if even f then f else f + 1)"

text \<open>
  The exponent of the binade of \<open>x\<close>, and the distance between two neighbouring doubles
  of that binade.
\<close>

definition exponent :: "real \<Rightarrow> int" where
  "exponent x = max \<lfloor>Transcendental.log 2 \<bar>x\<bar>\<rfloor> (- 1022)"

definition ulp :: "real \<Rightarrow> real" where
  "ulp x = 2 powr (of_int (exponent x) - 52)"

definition fl :: "real \<Rightarrow> real" where
  "fl x = (if x = 0 then 0 else of_int (round_even (x / ulp x)) * ulp x)"

text \<open>\<^verbatim>\<open>Math.PI\<close>, the double nearest to \<open>\<pi>\<close>: \<open>0x400921FB54442D18\<close>.\<close>

definition Math_PI :: real where
  "Math_PI = 884279719003555 / 2 ^ 48"

text \<open>\<^verbatim>\<open>Math.round\<close>: the nearest integer, a tie going up.\<close>

definition Math_round :: "real \<Rightarrow> int" where
  "Math_round x = \<lfloor>x + 1 / 2\<rfloor>"

text \<open>
  The square root of IEEE 754 is correctly rounded. The language leaves the precision of
  \<^verbatim>\<open>Math.atan2\<close>, \<^verbatim>\<open>Math.cos\<close> and \<^verbatim>\<open>Math.sin\<close> to the engine; they are modelled as the
  rounding of the exact value. \<open>atan2 y x\<close> is the exact angle of the point \<open>(x, y)\<close> in
  \<open>(-\<pi>, \<pi>]\<close>, and \<open>0\<close> at the origin.
\<close>

definition Math_sqrt :: "real \<Rightarrow> real" where
  "Math_sqrt x = fl (sqrt x)"

definition atan2 :: "real \<Rightarrow> real \<Rightarrow> real" where
  "atan2 y x =
     (if 0 < x then arctan (y / x)
      else if x < 0 then (if 0 \<le> y then arctan (y / x) + pi else arctan (y / x) - pi)
      else if 0 < y then pi / 2
      else if y < 0 then - (pi / 2)
      else 0)"

definition Math_atan2 :: "real \<Rightarrow> real \<Rightarrow> real" where
  "Math_atan2 y x = fl (atan2 y x)"

definition Math_cos :: "real \<Rightarrow> real" where
  "Math_cos x = fl (cos x)"

definition Math_sin :: "real \<Rightarrow> real" where
  "Math_sin x = fl (sin x)"

section \<open>The movement controls (controls.js)\<close>

definition maxDistance :: real where
  "maxDistance = 50"

definition sendMovementCommand :: "direction \<Rightarrow> int \<Rightarrow> state \<Rightarrow> state" where
  "sendMovementCommand d v s =
     callApi_send endpoint_movement ''POST'' (Some (MovementData d v)) (log (LogSending d v) s)"

text \<open>
  The part of \<^verbatim>\<open>sendMovementCommand\<close> after \<^verbatim>\<open>await callApi(...)\<close>; reading
  \<^verbatim>\<open>response.success\<close> of \<^verbatim>\<open>null\<close> throws into the \<^verbatim>\<open>catch\<close> block.
\<close>

definition sendMovementCommand_settle :: "fetch_outcome \<Rightarrow> state \<Rightarrow> state" where
  "sendMovementCommand_settle fo s = (case callApi_settle fo s of
       (Inl m, s') \<Rightarrow> log (ErrMovementError m) s'
     | (Inr None, s') \<Rightarrow> log (ErrMovementError ''TypeError'') s'
     | (Inr (Some r), s') \<Rightarrow>
         if success r then log LogMovementSent s' else log (ErrMovementFailed (err r)) s')"

text \<open>The comparisons of \<^verbatim>\<open>updateMovement\<close> on the angle in degrees.\<close>

definition direction_of_angleDeg :: "real \<Rightarrow> direction" where
  "direction_of_angleDeg angleDeg =
     (if angleDeg > - 45 \<and> angleDeg \<le> 45 then Right
      else if angleDeg > 45 \<and> angleDeg \<le> 135 then Backward
      else if angleDeg > 135 \<or> angleDeg \<le> - 135 then Left
      else Forward)"

definition updateMovement :: "state \<Rightarrow> state" where
  "updateMovement s =
     (let a = angle (currentMovement s);
          d = distance (currentMovement s);
          angleDeg = fl (a * fl (180 / Math_PI));
          direction = direction_of_angleDeg angleDeg;
          scaledSpeed = Math_round (fl (real_of_int (speed (currentMovement s)) * d))
      in sendMovementCommand direction scaledSpeed s)"

text \<open>
  The loop of \<^verbatim>\<open>updateButtonState\<close> over the five buttons: the style of a button that is
  \<^verbatim>\<open>null\<close> cannot be written.
\<close>

fun reset_buttons :: "direction list \<Rightarrow> state \<Rightarrow> outcome" where
  "reset_buttons [] s = Normal s"
| "reset_buttons (b # bs) s =
     (if b \<in> set (buttons s) then reset_buttons bs (s\<lparr>lit := removeAll b (lit s)\<rparr>)
      else Thrown ''TypeError'' s)"

definition updateButtonState :: "direction \<Rightarrow> state \<Rightarrow> outcome" where
  "updateButtonState activeDirection s =
     then_run (reset_buttons [Forward, Left, Right, Backward, Stop] s)
       (\<lambda>s'. Normal (s'\<lparr>lit := activeDirection # lit s'\<rparr>))"

definition client_pos :: "pointer \<Rightarrow> (real \<times> real) option" where
  "client_pos e = (case e of
       MouseEv x y \<Rightarrow> Some (x, y)
     | TouchEv [] \<Rightarrow> None
     | TouchEv (t # ts) \<Rightarrow> Some t)"

definition handleMove :: "pointer \<Rightarrow> state \<Rightarrow> outcome" where
  "handleMove e s =
     (if \<not> isDragging s then Normal s
      else
        let s1 = s\<lparr>handle_transition := ''''\<rparr> in
        case client_pos e of
          None \<Rightarrow> Thrown ''TypeError'' s1
        | Some (clientX, clientY) \<Rightarrow>
            let deltaX = fl (clientX - startX s1);
                deltaY = fl (clientY - startY s1);
                dist = min (Math_sqrt (fl (fl (deltaX * deltaX) + fl (deltaY * deltaY))))
                         maxDistance;
                a = Math_atan2 deltaY deltaX;
                s2 = s1\<lparr>currentX := fl (Math_cos a * dist),
                        currentY := fl (Math_sin a * dist)\<rparr>;
                s3 = s2\<lparr>handle_translate := (currentX s2, currentY s2)\<rparr>;
                s4 = s3\<lparr>currentMovement :=
                        (currentMovement s3)\<lparr>angle := a, distance := fl (dist / maxDistance)\<rparr>\<rparr>
            in Normal (updateMovement s4))"

definition handleStart :: "pointer \<Rightarrow> state \<Rightarrow> outcome" where
  "handleStart e s =
     handleMove e (s\<lparr>isDragging := True, startX := fst (base_center s),
                     startY := snd (base_center s)\<rparr>)"

definition handleEnd :: "state \<Rightarrow> outcome" where
  "handleEnd s =
     (if \<not> isDragging s then Normal s
      else
        let s1 = s\<lparr>isDragging := False,
                   handle_transition := ''transform 0.2s ease-out'',
                   handle_translate := (0, 0),
                   currentX := 0, currentY := 0,
                   currentMovement :=
                     \<lparr>angle = 0, distance = 0, speed = speed (currentMovement s)\<rparr>\<rparr>;
            s2 = sendMovementCommand Stop 0 s1
        in then_run (updateButtonState Stop s2)
             (\<lambda>s3. Normal (setTimeout ClearTransition 200 s3)))"

text \<open>
  The two \<^verbatim>\<open>input\<close> listeners of the speed slider (the one of main.js shows the value, the
  one of controls.js stores it), run after the slider has taken the value \<open>v\<close>.
\<close>

definition sliderInput :: "int \<Rightarrow> state \<Rightarrow> state" where
  "sliderInput v s =
     (let s1 = s\<lparr>slider_value := v\<rparr>;
          s2 = s1\<lparr>speed_text := slider_value s1\<rparr>;
          s3 = s2\<lparr>currentMovement := (currentMovement s2)\<lparr>speed := slider_value s2\<rparr>\<rparr>
      in if distance (currentMovement s3) > 0 then updateMovement s3 else s3)"

definition setMovement :: "direction \<Rightarrow> state \<Rightarrow> outcome" where
  "setMovement d s =
     (let v = slider_value s;
          s1 = (if d = Stop
                then s\<lparr>window_currentMovement :=
                        Some \<lparr>g_angle = Some 0, g_distance = Some 0, g_direction = d, g_speed = v\<rparr>\<rparr>
                else s\<lparr>window_currentMovement :=
                        Some \<lparr>g_angle = None, g_distance = None, g_direction = d, g_speed = v\<rparr>\<rparr>);
          s2 = sendMovementCommand d v s1
      in updateButtonState d s2)"

definition in_input_field :: "key_event \<Rightarrow> bool" where
  "in_input_field ev \<longleftrightarrow>
     ev_target ev = ''INPUT'' \<or> ev_target ev = ''TEXTAREA'' \<or> ev_target ev = ''SELECT''"

text \<open>The \<^verbatim>\<open>switch\<close> of \<^verbatim>\<open>handleKeyDown\<close> on \<^verbatim>\<open>event.key\<close>.\<close>

definition key_direction :: "string \<Rightarrow> direction option" where
  "key_direction k =
     (if k = ''ArrowUp'' then Some Forward
      else if k = ''ArrowDown'' then Some Backward
      else if k = ''ArrowLeft'' then Some Left
      else if k = ''ArrowRight'' then Some Right
      else if k = '' '' then Some Stop
      else None)"

definition handleKeyDown :: "key_event \<Rightarrow> state \<Rightarrow> outcome" where
  "handleKeyDown ev s =
     (if in_input_field ev then Normal s
      else case key_direction (ev_key ev) of
             Some d \<Rightarrow> setMovement d s
           | None \<Rightarrow> Normal s)"

definition arrow_keys :: "string list" where
  "arrow_keys = [''ArrowUp'', ''ArrowDown'', ''ArrowLeft'', ''ArrowRight'']"

definition handleKeyUp :: "key_event \<Rightarrow> state \<Rightarrow> outcome" where
  "handleKeyUp ev s =
     (if in_input_field ev then Normal s
      else if ev_key ev \<in> set arrow_keys then setMovement Stop s
      else Normal s)"

section \<open>Navigation (map.js)\<close>

text \<open>
  Assigning \<^verbatim>\<open>destinationSelect.value\<close> selects the option with that value; when the select
  has no such option nothing is selected and the value reads as the empty string.
\<close>

definition set_dest_value :: "string \<Rightarrow> state \<Rightarrow> state" where
  "set_dest_value v s = s\<lparr>dest_value := (if v \<in> set (dest_options s) then v else '''')\<rparr>"

text \<open>\<^verbatim>\<open>startNavigation\<close>, the click listener of \<^verbatim>\<open>navigate-btn\<close>, up to its \<^verbatim>\<open>await\<close>.\<close>

definition startNavigation :: "state \<Rightarrow> state" where
  "startNavigation s =
     (let destination = dest_value s
      in if destination = '''' then log ErrNoDestination s
         else callApi_send endpoint_map ''POST'' (Some (MapData ''navigate'' (Some destination)))
                (log (LogNavigating destination) s))"

definition startNavigation_settle :: "fetch_outcome \<Rightarrow> state \<Rightarrow> state" where
  "startNavigation_settle fo s = (case callApi_settle fo s of
       (Inl m, s') \<Rightarrow> log (ErrNavigationError m) s'
     | (Inr None, s') \<Rightarrow> log (ErrNavigationError ''TypeError'') s'
     | (Inr (Some r), s') \<Rightarrow>
         if success r then log LogNavigationStarted s' else log (ErrNavigationFailed (err r)) s')"

text \<open>
  \<^verbatim>\<open>toggleMapping\<close>, \<^verbatim>\<open>saveMap\<close> and \<^verbatim>\<open>loadMap\<close>, the click listeners of the mapping
  buttons. They are top-level functions, and \<^verbatim>\<open>isMapping\<close> and \<^verbatim>\<open>currentMap\<close> are local to
  \<^verbatim>\<open>initMap\<close>: reading \<^verbatim>\<open>isMapping\<close> in \<^verbatim>\<open>toggleMapping\<close> is a \<^verbatim>\<open>ReferenceError\<close>,
  and \<^verbatim>\<open>loadMap\<close> assigns a global.
\<close>

definition toggleMapping :: "state \<Rightarrow> outcome" where
  "toggleMapping s = Thrown ''ReferenceError'' s"

definition saveMap :: "state \<Rightarrow> state" where
  "saveMap s =
     callApi_send endpoint_map ''POST'' (Some (MapData ''save'' None)) (log LogSavingMap s)"

definition saveMap_settle :: "fetch_outcome \<Rightarrow> state \<Rightarrow> state" where
  "saveMap_settle fo s = (case callApi_settle fo s of
       (Inl m, s') \<Rightarrow> log (ErrSaveError m) s'
     | (Inr None, s') \<Rightarrow> log (ErrSaveError ''TypeError'') s'
     | (Inr (Some r), s') \<Rightarrow>
         if success r then log LogMapSaved s' else log (ErrSaveFailed (err r)) s')"

definition loadMap :: "state \<Rightarrow> state" where
  "loadMap s = callApi_send endpoint_map ''GET'' None (log LogLoadingMap s)"

definition loadMap_settle :: "fetch_outcome \<Rightarrow> state \<Rightarrow> state" where
  "loadMap_settle fo s = (case callApi_settle fo s of
       (Inl m, s') \<Rightarrow> log (ErrLoadError m) s'
     | (Inr None, s') \<Rightarrow> log (ErrLoadError ''TypeError'') s'
     | (Inr (Some r), s') \<Rightarrow>
         if success r then log LogMapLoaded (s'\<lparr>window_currentMap := Some (reply r)\<rparr>)
         else log (ErrLoadFailed (err r)) s')"

section \<open>Voice commands (voice.js)\<close>

text \<open>\<^verbatim>\<open>toLowerCase\<close> and \<^verbatim>\<open>includes\<close> on ASCII strings.\<close>

definition lower_char :: "char \<Rightarrow> char" where
  "lower_char c =
     (if (65::nat) \<le> of_char c \<and> of_char c \<le> (90::nat) then char_of (of_char c + (32::nat)) else c)"

definition toLowerCase :: "string \<Rightarrow> string" where
  "toLowerCase str = map lower_char str"

fun str_includes :: "string \<Rightarrow> string \<Rightarrow> bool" where
  "str_includes [] sub = (sub = [])"
| "str_includes (c # cs) sub = (prefix sub (c # cs) \<or> str_includes cs sub)"

text \<open>
  \<^verbatim>\<open>document.getElementById(id).click()\<close> for a direction button: a \<^verbatim>\<open>TypeError\<close> when
  the document has no such element, as in the markup of the source, which has none of the
  five. No script registers a click listener for these buttons, so on a document that had one
  the click would run nothing.
\<close>

definition click_button :: "direction \<Rightarrow> state \<Rightarrow> outcome" where
  "click_button d s =
     (if d \<in> set (buttons s) then Normal s else Thrown ''TypeError'' s)"

text \<open>
  The clicks on the navigate button and on the mapping buttons run their listeners; an
  exception that leaves a listener is reported without reaching the caller of \<^verbatim>\<open>click\<close>.
\<close>

definition click_navigate :: "state \<Rightarrow> state" where
  "click_navigate s = startNavigation s"

definition click_start_mapping :: "state \<Rightarrow> state" where
  "click_start_mapping s = uncaught (toggleMapping s)"

definition click_save_map :: "state \<Rightarrow> state" where
  "click_save_map s = saveMap s"

definition click_load_map :: "state \<Rightarrow> state" where
  "click_load_map s = loadMap s"

definition executeVoiceCommand :: "string \<Rightarrow> state \<Rightarrow> outcome" where
  "executeVoiceCommand command s =
     (let cmd = toLowerCase command in
      if str_includes cmd ''forward'' \<or> str_includes cmd ''ahead'' then
        then_run (click_button Forward s) (\<lambda>s'. Normal (setTimeout ClickStopBtn 2000 s'))
      else if str_includes cmd ''left'' then
        then_run (click_button Left s) (\<lambda>s'. Normal (setTimeout ClickStopBtn 2000 s'))
      else if str_includes cmd ''right'' then
        then_run (click_button Right s) (\<lambda>s'. Normal (setTimeout ClickStopBtn 2000 s'))
      else if str_includes cmd ''back'' then
        then_run (click_button Backward s) (\<lambda>s'. Normal (setTimeout ClickStopBtn 2000 s'))
      else if str_includes cmd ''stop'' then
        click_button Stop s
      else if str_includes cmd ''go to'' then
        (let s1 = (if str_includes cmd ''living room'' then set_dest_value ''living-room'' s
                   else if str_includes cmd ''kitchen'' then set_dest_value ''kitchen'' s
                   else if str_includes cmd ''bedroom'' then set_dest_value ''bedroom'' s
                   else s)
         in if dest_value s1 \<noteq> '''' then Normal (click_navigate s1) else Normal s1)
      else if str_includes cmd ''start mapping'' then
        Normal (click_start_mapping s)
      else if str_includes cmd ''save map'' \<or> str_includes cmd ''save the map'' then
        Normal (click_save_map s)
      else if str_includes cmd ''load map'' \<or> str_includes cmd ''load the map'' then
        Normal (click_load_map s)
      else Normal s)"

definition displayAIResponse :: "string \<Rightarrow> state \<Rightarrow> state" where
  "displayAIResponse response s = (log (LogAIResponse response) s)\<lparr>voice_output := response\<rparr>"

text \<open>
  \<^verbatim>\<open>executeVoiceCommand\<close> is called inside the \<^verbatim>\<open>try\<close> block of
  \<^verbatim>\<open>processVoiceCommand\<close>, so what it throws is caught there.
\<close>

definition run_voice_command :: "string \<Rightarrow> state \<Rightarrow> state" where
  "run_voice_command command s = (case executeVoiceCommand command s of
       Normal s' \<Rightarrow> s'
     | Thrown e s' \<Rightarrow>
         displayAIResponse ''Sorry, there was an error processing your command.''
           (log (ErrVoiceError e) s'))"

text \<open>\<^verbatim>\<open>processVoiceCommand\<close> up to its \<^verbatim>\<open>await\<close>, and after it.\<close>

definition processVoiceCommand :: "string \<Rightarrow> state \<Rightarrow> state" where
  "processVoiceCommand command s =
     callApi_send endpoint_voice ''POST'' (Some (VoiceData command))
       ((log (LogProcessingVoice command) s)\<lparr>voice_output := [CHR 0x22] @ command @ [CHR 0x22]\<rparr>)"

definition processVoiceCommand_settle :: "string \<Rightarrow> fetch_outcome \<Rightarrow> state \<Rightarrow> state" where
  "processVoiceCommand_settle command fo s = (case callApi_settle fo s of
       (Inl m, s') \<Rightarrow>
         displayAIResponse ''Sorry, there was an error processing your command.''
           (log (ErrVoiceError m) s')
     | (Inr None, s') \<Rightarrow>
         displayAIResponse ''Sorry, there was an error processing your command.''
           (log (ErrVoiceError ''TypeError'') s')
     | (Inr (Some r), s') \<Rightarrow>
         if success r then
           run_voice_command command (setTimeout (DisplayReply (reply r)) 1000 s')
         else displayAIResponse ''Sorry, I could not process that command.''
                (log (ErrVoiceFailed (err r)) s'))"

section \<open>The event loop\<close>

definition run_callback :: "callback \<Rightarrow> state \<Rightarrow> state" where
  "run_callback cb s = (case cb of
       ClearTransition \<Rightarrow> s\<lparr>handle_transition := ''''\<rparr>
     | ClickStopBtn \<Rightarrow> uncaught (click_button Stop s)
     | DisplayReply r \<Rightarrow>
         (case r of None \<Rightarrow> uncaught (Thrown ''TypeError'' s)
          | Some text \<Rightarrow> displayAIResponse text s))"

text \<open>
  Time passes until \<open>t\<close>: the timers due by then run, earliest first, in the order of their
  scheduling when due together. No callback of the program schedules a timer.
\<close>

definition elapse :: "nat \<Rightarrow> state \<Rightarrow> state" where
  "elapse t s =
     (let due = sort_key fst (filter (\<lambda>(t', cb). t' \<le> t) (timers s));
          later = filter (\<lambda>(t', cb). t < t') (timers s)
      in (foldl (\<lambda>s' (t', cb). run_callback cb (s'\<lparr>now := max (now s') t'\<rparr>))
            (s\<lparr>timers := later\<rparr>) due)\<lparr>now := max (now s) t\<rparr>)"

datatype event =
    PointerDown pointer
  | PointerMove pointer
  | PointerUp
  | SliderInput int
  | KeyDown key_event
  | KeyUp key_event
  | VoiceCommand string
  | Elapse nat

definition step :: "state \<Rightarrow> event \<Rightarrow> state" where
  "step s ev = (case ev of
       PointerDown e \<Rightarrow> uncaught (handleStart e s)
     | PointerMove e \<Rightarrow> uncaught (handleMove e s)
     | PointerUp \<Rightarrow> uncaught (handleEnd s)
     | SliderInput v \<Rightarrow> sliderInput v s
     | KeyDown k \<Rightarrow> uncaught (handleKeyDown k s)
     | KeyUp k \<Rightarrow> uncaught (handleKeyUp k s)
     | VoiceCommand c \<Rightarrow> run_voice_command c s
     | Elapse ms \<Rightarrow> elapse (now s + ms) s)"

definition run :: "event list \<Rightarrow> state \<Rightarrow> state" where
  "run evs s = foldl step s evs"

text \<open>
  The page once the scripts have started: \<open>c\<close> is the centre of the joystick base and \<open>bs\<close>
  the direction buttons of the document (none in the markup of the source). The slider starts
  at 50 and the destination select at its empty first option.
\<close>

definition initial_state :: "real \<times> real \<Rightarrow> direction list \<Rightarrow> state" where
  "initial_state c bs =
     \<lparr>currentMovement = \<lparr>angle = 0, distance = 0, speed = 50\<rparr>,
      isDragging = False, startX = 0, startY = 0, currentX = 0, currentY = 0,
      window_currentMovement = None,
      base_center = c,
      handle_transition = '''', handle_translate = (0, 0),
      slider_value = 50, speed_text = 50,
      buttons = bs, lit = [],
      dest_options = ['''', ''living-room'', ''kitchen'', ''bedroom''],
      dest_value = '''',
      voice_output = ''Press the microphone to speak...'',
      window_currentMap = None,
      now = 0, timers = [], requests = [], console = []\<rparr>"

definition all_buttons :: "direction list" where
  "all_buttons = [Forward, Left, Right, Backward, Stop]"

text \<open>The request that \<^verbatim>\<open>sendMovementCommand(d, v)\<close> hands to \<^verbatim>\<open>fetch\<close>.\<close>

definition movement_request :: "direction \<Rightarrow> int \<Rightarrow> request" where
  "movement_request d v =
     \<lparr>req_url = ''http://localhost:5000/api/movement'', req_method = ''POST'',
      req_body = Some (MovementData d v)\<rparr>"

definition navigate_request :: "string \<Rightarrow> request" where
  "navigate_request dest =
     \<lparr>req_url = ''http://localhost:5000/api/map'', req_method = ''POST'',
      req_body = Some (MapData ''navigate'' (Some dest))\<rparr>"

definition is_stop_request :: "request \<Rightarrow> bool" where
  "is_stop_request r = (case req_body r of Some (MovementData Stop v) \<Rightarrow> True | _ \<Rightarrow> False)"

definition is_navigate_request :: "request \<Rightarrow> bool" where
  "is_navigate_request r =
     (case req_body r of Some (MapData a d) \<Rightarrow> a = ''navigate'' | _ \<Rightarrow> False)"

section \<open>Notions used in the statements\<close>

text \<open>
  The movement rules of \<^verbatim>\<open>executeVoiceCommand\<close>, in their order: the direction whose button
  is clicked, if the utterance has one of the keywords.
\<close>

definition voice_movement :: "string \<Rightarrow> direction option" where
  "voice_movement command =
     (let cmd = toLowerCase command in
      if str_includes cmd ''forward'' \<or> str_includes cmd ''ahead'' then Some Forward
      else if str_includes cmd ''left'' then Some Left
      else if str_includes cmd ''right'' then Some Right
      else if str_includes cmd ''back'' then Some Backward
      else None)"

text \<open>The utterance gets as far as the rule of ``go to'': no rule before it matches.\<close>

definition navigation_intent :: "string \<Rightarrow> bool" where
  "navigation_intent command \<longleftrightarrow>
     voice_movement command = None
     \<and> \<not> str_includes (toLowerCase command) ''stop''
     \<and> str_includes (toLowerCase command) ''go to''"

text \<open>The option value of the first of the three places that the utterance mentions.\<close>

definition mentioned_place :: "string \<Rightarrow> string option" where
  "mentioned_place command =
     (let cmd = toLowerCase command in
      if str_includes cmd ''living room'' then Some ''living-room''
      else if str_includes cmd ''kitchen'' then Some ''kitchen''
      else if str_includes cmd ''bedroom'' then Some ''bedroom''
      else None)"

text \<open>The time that passes during a list of events.\<close>

fun duration :: "event list \<Rightarrow> nat" where
  "duration [] = 0"
| "duration (Elapse ms # evs) = ms + duration evs"
| "duration (ev # evs) = duration evs"

text \<open>
  What no handler other than the passing of time changes: the buttons of the document and
  the clock stay, and the timers scheduled stay scheduled.
\<close>

definition keeps :: "state \<Rightarrow> state \<Rightarrow> bool" where
  "keeps s s' \<longleftrightarrow>
     buttons s' = buttons s \<and> now s' = now s \<and> (\<exists>new. timers s' = timers s @ new)"

section \<open>The joystick while no drag is active\<close>

text \<open>
  C10. \<^verbatim>\<open>mousemove\<close>/\<^verbatim>\<open>touchmove\<close> and \<^verbatim>\<open>mouseup\<close>/\<^verbatim>\<open>touchend\<close> are listened to on the
  whole document; while \<^verbatim>\<open>isDragging\<close> is false both handlers return at once: the state of
  the page (angle, distance, speed, requests sent, everything else) is the one before.
\<close>

theorem idle_pointer_events_do_nothing:
  assumes "\<not> isDragging s"
  shows "handleMove e s = Normal s \<and> handleEnd s = Normal s
       \<and> step s (PointerMove e) = s \<and> step s PointerUp = s"
  using assms by (simp add: handleMove_def handleEnd_def uncaught_def step_def)

theorem idle_pointer_events_do_nothing_witness:
  "\<not> isDragging (initial_state (100, 100) [])
   \<and> step (initial_state (100, 100) []) (PointerMove (MouseEv 140 100)) = initial_state (100, 100) []
   \<and> step (initial_state (100, 100) []) PointerUp = initial_state (100, 100) []
   \<and> requests (step (initial_state (100, 100) []) (PointerMove (MouseEv 140 100))) = []"
proof -
  have idle: "\<not> isDragging (initial_state (100, 100) [])"
    by (simp add: initial_state_def)
  from idle_pointer_events_do_nothing [OF idle, of "MouseEv 140 100"] idle show ?thesis
    by (simp add: initial_state_def)
qed


section \<open>Rounding to doubles\<close>

text \<open>
  A real number that is within half a unit in the last place of \<open>m / 2^k\<close>, with \<open>m\<close> a
  significand of 53 bits, is rounded to it; the rounding is monotone, odd, and leaves the
  integers below \<open>2^53\<close> alone. \<open>\<pi>\<close> is bounded by Machin's formula and the alternating
  series of the arc tangent.
\<close>

lemma round_even_eqI:
  assumes "\<bar>r - of_int m\<bar> < 1 / 2"
  shows "round_even r = m"
proof -
  from assms have "of_int m - 1 / 2 < r" "r < of_int m + 1 / 2" by linarith+
  consider (lo) "r < of_int m" | (hi) "of_int m \<le> r" by linarith
  then show ?thesis
  proof cases
    case lo
    with \<open>of_int m - 1 / 2 < r\<close> have f: "\<lfloor>r\<rfloor> = m - 1"
      by (intro floor_unique) simp_all
    with \<open>of_int m - 1 / 2 < r\<close> show ?thesis
      by (simp add: round_even_def Let_def)
  next
    case hi
    with \<open>r < of_int m + 1 / 2\<close> have f: "\<lfloor>r\<rfloor> = m"
      by (intro floor_unique) simp_all
    with \<open>r < of_int m + 1 / 2\<close> show ?thesis
      by (simp add: round_even_def Let_def)
  qed
qed

lemma fl_zero: "fl 0 = 0"
  by (simp add: fl_def)

lemma fl_eqI:
  fixes k :: nat
  assumes lo: "2 ^ 52 \<le> \<bar>x\<bar> * 2 ^ k" and hi: "\<bar>x\<bar> * 2 ^ k < 2 ^ 53" and k: "k \<le> 1074"
    and m: "\<bar>x * 2 ^ k - of_int m\<bar> < 1 / 2"
  shows "fl x = of_int m / 2 ^ k"
proof -
  from lo have nz: "x \<noteq> 0" by auto
  then have pos: "0 < \<bar>x\<bar>" by simp
  have pk: "2 powr (real k) = (2 ^ k :: real)"
    by (simp add: powr_realpow)
  have p52: "2 powr (52 :: real) = (2 ^ 52 :: real)"
    using powr_realpow [of "2 :: real" 52] by simp
  have p53: "2 powr (53 :: real) = (2 ^ 53 :: real)"
    using powr_realpow [of "2 :: real" 53] by simp
  have p: "2 powr (52 - real k) = (2 ^ 52 / 2 ^ k :: real)"
    using powr_diff [of "2 :: real" 52 "real k"] by (simp only: pk p52)
  have p1: "2 powr (53 - real k) = (2 ^ 53 / 2 ^ k :: real)"
    using powr_diff [of "2 :: real" 53 "real k"] by (simp only: pk p53)
  have c: "real_of_int (52 - int k) = 52 - real k"
    by simp
  have c1: "real_of_int (52 - int k) + 1 = 53 - real k"
    by simp
  have "2 ^ 52 / 2 ^ k \<le> \<bar>x\<bar>"
    using lo by (simp add: field_simps)
  then have l: "2 powr (real_of_int (52 - int k)) \<le> \<bar>x\<bar>"
    by (simp only: c p)
  have "\<bar>x\<bar> < 2 ^ 53 / 2 ^ k"
    using hi by (simp add: field_simps)
  then have h: "\<bar>x\<bar> < 2 powr (real_of_int (52 - int k) + 1)"
    by (simp only: c1 p1)
  have e: "\<lfloor>Transcendental.log 2 \<bar>x\<bar>\<rfloor> = 52 - int k"
    using floor_log_eq_powr_iff [of "\<bar>x\<bar>" 2 "52 - int k"] pos l h by simp
  have mx: "max (52 - int k) (- 1022) = 52 - int k"
    using k by simp
  have u: "2 powr (- real k) = (1 / 2 ^ k :: real)"
    using powr_minus [of "2 :: real" "real k"] by (simp add: pk inverse_eq_divide)
  have r: "round_even (x * 2 ^ k) = m"
    using m by (rule round_even_eqI)
  show ?thesis
    using nz by (simp add: fl_def ulp_def exponent_def e mx u r)
qed

lemma arctan_partial_sums:
  fixes x :: real
  assumes "0 \<le> x" "x \<le> 1"
  shows "(\<Sum>k<2 * n. (- 1) ^ k * (1 / real (k * 2 + 1) * x ^ (k * 2 + 1))) \<le> arctan x"
    and "arctan x \<le> (\<Sum>k<2 * n + 1. (- 1) ^ k * (1 / real (k * 2 + 1) * x ^ (k * 2 + 1)))"
proof -
  let ?a = "\<lambda>k. 1 / real (k * 2 + 1) * x ^ (k * 2 + 1)"
  have ax: "\<bar>x\<bar> \<le> 1" using assms by simp
  have z: "?a \<longlonglongrightarrow> 0"
    using zeroseq_arctan_series [OF ax] by simp
  have nn: "\<And>k. 0 \<le> ?a k"
    using assms by simp
  have dec: "\<And>k. ?a (Suc k) \<le> ?a k"
  proof -
    fix k
    have "x ^ (Suc k * 2 + 1) = x ^ (k * 2 + 1) * (x * x)"
      by (simp add: power_add)
    also have "\<dots> \<le> x ^ (k * 2 + 1) * 1"
      using assms by (intro mult_left_mono mult_le_one) simp_all
    finally have p: "x ^ (Suc k * 2 + 1) \<le> x ^ (k * 2 + 1)" by simp
    have q: "1 / real (Suc k * 2 + 1) \<le> 1 / real (k * 2 + 1)"
      by (simp add: field_simps)
    show "?a (Suc k) \<le> ?a k"
      using p q assms by (intro mult_mono) simp_all
  qed
  have s: "arctan x = (\<Sum>k. (- 1) ^ k * ?a k)"
    using arctan_series [OF ax] .
  show "(\<Sum>k<2 * n. (- 1) ^ k * ?a k) \<le> arctan x"
    unfolding s using summable_Leibniz'(2) [OF z nn dec] .
  show "arctan x \<le> (\<Sum>k<2 * n + 1. (- 1) ^ k * ?a k)"
    unfolding s using summable_Leibniz'(4) [OF z nn dec] .
qed

lemma pi_bounds:
  "3141592653589793238 / 10 ^ 18 < pi" "pi < 3141592653589793239 / 10 ^ 18"
proof -
  have m: "pi = 16 * arctan (1 / 5) - 4 * arctan (1 / 239)"
    using machin by simp
  have l5: "(\<Sum>k<14. (- 1) ^ k * (1 / real (k * 2 + 1) * (1 / 5) ^ (k * 2 + 1))) \<le> arctan (1 / 5)"
    using arctan_partial_sums(1) [of "1 / 5" 7] by simp
  have u5: "arctan (1 / 5) \<le> (\<Sum>k<15. (- 1) ^ k * (1 / real (k * 2 + 1) * (1 / 5) ^ (k * 2 + 1)))"
    using arctan_partial_sums(2) [of "1 / 5" 7] by simp
  have l239: "(\<Sum>k<4. (- 1) ^ k * (1 / real (k * 2 + 1) * (1 / 239) ^ (k * 2 + 1))) \<le> arctan (1 / 239)"
    using arctan_partial_sums(1) [of "1 / 239" 2] by simp
  have u239: "arctan (1 / 239) \<le> (\<Sum>k<5. (- 1) ^ k * (1 / real (k * 2 + 1) * (1 / 239) ^ (k * 2 + 1)))"
    using arctan_partial_sums(2) [of "1 / 239" 2] by simp
  have L5: "19739555984988075836 / 10 ^ 20 < (\<Sum>k<14. (- 1) ^ k * (1 / real (k * 2 + 1) * (1 / 5) ^ (k * 2 + 1)))"
    by (simp add: eval_nat_numeral)
  have U5: "(\<Sum>k<15. (- 1) ^ k * (1 / real (k * 2 + 1) * (1 / 5) ^ (k * 2 + 1))) < 19739555984988075838 / 10 ^ 20"
    by (simp add: eval_nat_numeral)
  have L239: "41840760020747238644 / 10 ^ 22 < (\<Sum>k<4. (- 1) ^ k * (1 / real (k * 2 + 1) * (1 / 239) ^ (k * 2 + 1)))"
    by (simp add: eval_nat_numeral)
  have U239: "(\<Sum>k<5. (- 1) ^ k * (1 / real (k * 2 + 1) * (1 / 239) ^ (k * 2 + 1))) < 41840760020747238646 / 10 ^ 22"
    by (simp add: eval_nat_numeral)
  have a5: "19739555984988075836 / 10 ^ 20 < arctan (1 / 5)" "arctan (1 / 5) < 19739555984988075838 / 10 ^ 20"
    using l5 u5 L5 U5 by linarith+
  have a239: "41840760020747238644 / 10 ^ 22 < arctan (1 / 239)" "arctan (1 / 239) < 41840760020747238646 / 10 ^ 22"
    using l239 u239 L239 U239 by linarith+
  show "3141592653589793238 / 10 ^ 18 < pi"
    using a5 a239 unfolding m by simp
  show "pi < 3141592653589793239 / 10 ^ 18"
    using a5 a239 unfolding m by simp
qed

lemma round_even_bounds: "\<lfloor>r\<rfloor> \<le> round_even r \<and> round_even r \<le> \<lfloor>r\<rfloor> + 1"
  by (simp add: round_even_def Let_def)

lemma round_even_of_int: "round_even (of_int n) = n"
  by (simp add: round_even_def)

lemma round_even_mono:
  assumes "r \<le> r'"
  shows "round_even r \<le> round_even r'"
proof (cases "\<lfloor>r\<rfloor> = \<lfloor>r'\<rfloor>")
  case True
  with assms show ?thesis
    by (simp add: round_even_def Let_def)
next
  case False
  moreover from assms have "\<lfloor>r\<rfloor> \<le> \<lfloor>r'\<rfloor>" by (rule floor_mono)
  ultimately have "\<lfloor>r\<rfloor> + 1 \<le> \<lfloor>r'\<rfloor>" by simp
  with round_even_bounds [of r] round_even_bounds [of r'] show ?thesis by linarith
qed

lemma round_even_minus: "round_even (- r) = - round_even r"
proof (cases "r = of_int \<lfloor>r\<rfloor>")
  case True
  then obtain n where "r = of_int n" ..
  then have "- r = of_int (- n)" by simp
  then show ?thesis
    unfolding \<open>r = of_int n\<close> by (simp only: round_even_of_int)
next
  case False
  then have lt: "of_int \<lfloor>r\<rfloor> < r" "r < of_int \<lfloor>r\<rfloor> + 1"
    using of_int_floor_le [of r] floor_correct [of r] by linarith+
  have f: "\<lfloor>- r\<rfloor> = - \<lfloor>r\<rfloor> - 1"
  proof (rule floor_unique)
    show "of_int (- \<lfloor>r\<rfloor> - 1) \<le> - r" using lt by simp linarith
    show "- r < of_int (- \<lfloor>r\<rfloor> - 1) + 1" using lt by simp
  qed
  show ?thesis
    using lt by (auto simp add: round_even_def Let_def f)
qed

lemma ulp_pos: "0 < ulp x"
  by (simp add: ulp_def)

lemma exponent_minus: "exponent (- x) = exponent x"
  by (simp add: exponent_def)

lemma fl_minus: "fl (- x) = - fl x"
  by (simp add: fl_def ulp_def exponent_minus round_even_minus)

lemma fl_same_exponent:
  assumes "x \<le> y" "exponent x = exponent y" "x \<noteq> 0" "y \<noteq> 0"
  shows "fl x \<le> fl y"
proof -
  have u: "ulp x = ulp y" using assms(2) by (simp add: ulp_def)
  have "x / ulp y \<le> y / ulp y"
    using assms(1) ulp_pos [of y] by (simp add: divide_right_mono)
  then have "round_even (x / ulp y) \<le> round_even (y / ulp y)"
    by (rule round_even_mono)
  then have "real_of_int (round_even (x / ulp y)) * ulp y \<le> real_of_int (round_even (y / ulp y)) * ulp y"
    using ulp_pos [of y] by (intro mult_right_mono) simp_all
  then show ?thesis
    using assms(3,4) by (simp add: fl_def u)
qed

lemma two_powr_53: "2 powr (53 :: real) = 2 ^ 53"
  using powr_realpow [of "2 :: real" 53] by simp

lemma two_powr_52: "2 powr (52 :: real) = 2 ^ 52"
  using powr_realpow [of "2 :: real" 52] by simp

lemma ulp_52: "2 ^ 52 * ulp x = 2 powr (of_int (exponent x))"
proof -
  have "ulp x = 2 powr (of_int (exponent x)) / 2 powr 52"
    unfolding ulp_def by (rule powr_diff)
  then show ?thesis by (simp only: two_powr_52) simp
qed

lemma ulp_53: "2 ^ 53 * ulp x = 2 powr (of_int (exponent x) + 1)"
proof -
  have "2 ^ 53 * ulp x = 2 * (2 ^ 52 * ulp x)" by simp
  also have "\<dots> = 2 * 2 powr (of_int (exponent x))" by (simp only: ulp_52)
  also have "\<dots> = 2 powr (of_int (exponent x) + 1)" by (simp add: powr_add)
  finally show ?thesis .
qed

lemma fl_pos_bounds:
  assumes "0 < x"
  shows "0 \<le> fl x"
    and "fl x \<le> 2 powr (of_int (exponent x) + 1)"
    and "exponent x = \<lfloor>Transcendental.log 2 x\<rfloor> \<Longrightarrow> 2 powr (of_int (exponent x)) \<le> fl x"
proof -
  let ?e = "exponent x"
  have nz: "x \<noteq> 0" using assms by simp
  have f: "fl x = of_int (round_even (x / ulp x)) * ulp x"
    using nz by (simp add: fl_def)
  have up: "0 < ulp x" by (rule ulp_pos)
  have "0 \<le> x / ulp x" using assms up by simp
  then have "round_even 0 \<le> round_even (x / ulp x)" by (rule round_even_mono)
  then have "0 \<le> round_even (x / ulp x)" using round_even_of_int [of 0] by simp
  then show "0 \<le> fl x" unfolding f using up by simp
  have "x < 2 powr (of_int \<lfloor>Transcendental.log 2 x\<rfloor> + 1)"
    using floor_log_eq_powr_iff [of x 2 "\<lfloor>Transcendental.log 2 x\<rfloor>"] assms by simp
  also have "\<dots> \<le> 2 powr (of_int ?e + 1)"
    using assms by (simp add: exponent_def)
  finally have "x < 2 powr (of_int ?e + 1)" .
  also have "2 powr (of_int ?e + 1) = 2 ^ 53 * ulp x"
    by (simp only: ulp_53)
  finally have "x / ulp x \<le> 2 ^ 53"
    using up by (simp add: field_simps)
  then have "round_even (x / ulp x) \<le> round_even (of_int (2 ^ 53))"
    by (intro round_even_mono) simp
  then have "round_even (x / ulp x) \<le> 2 ^ 53"
    by (simp only: round_even_of_int)
  then have "real_of_int (round_even (x / ulp x)) \<le> 2 ^ 53"
    by simp
  then have "fl x \<le> 2 ^ 53 * ulp x"
    unfolding f using up by (intro mult_right_mono) simp_all
  also have "2 ^ 53 * ulp x = 2 powr (of_int ?e + 1)"
    by (rule ulp_53)
  finally show "fl x \<le> 2 powr (of_int ?e + 1)" .
  assume e: "exponent x = \<lfloor>Transcendental.log 2 x\<rfloor>"
  have "2 powr (of_int \<lfloor>Transcendental.log 2 x\<rfloor>) \<le> x"
    using floor_log_eq_powr_iff [of x 2 "\<lfloor>Transcendental.log 2 x\<rfloor>"] assms by simp
  then have "2 powr (of_int ?e) \<le> x" by (simp add: e)
  moreover have "2 powr (of_int ?e) = 2 ^ 52 * ulp x"
    by (simp only: ulp_52)
  ultimately have "2 ^ 52 \<le> x / ulp x"
    using up by (simp add: field_simps)
  then have "round_even (of_int (2 ^ 52)) \<le> round_even (x / ulp x)"
    by (intro round_even_mono) simp
  then have "2 ^ 52 \<le> round_even (x / ulp x)"
    by (simp only: round_even_of_int)
  then have "2 ^ 52 \<le> real_of_int (round_even (x / ulp x))"
    by simp
  then have "2 ^ 52 * ulp x \<le> fl x"
    unfolding f using up by (intro mult_right_mono) simp_all
  moreover have "2 ^ 52 * ulp x = 2 powr (of_int ?e)"
    by (rule ulp_52)
  ultimately show "2 powr (of_int ?e) \<le> fl x" by simp
qed

lemma fl_mono_pos:
  assumes "0 < x" "x \<le> y"
  shows "fl x \<le> fl y"
proof (cases "exponent x = exponent y")
  case True
  with assms show ?thesis by (intro fl_same_exponent) simp_all
next
  case False
  have y: "0 < y" using assms by simp
  have "Transcendental.log 2 x \<le> Transcendental.log 2 y" using assms by simp
  then have "\<lfloor>Transcendental.log 2 x\<rfloor> \<le> \<lfloor>Transcendental.log 2 y\<rfloor>" by (rule floor_mono)
  then have le: "exponent x \<le> exponent y"
    using assms y by (simp add: exponent_def)
  with False have lt: "exponent x + 1 \<le> exponent y" by simp
  have "- 1022 \<le> exponent x" by (simp add: exponent_def)
  with lt have ey: "exponent y = \<lfloor>Transcendental.log 2 y\<rfloor>"
    using y by (simp add: exponent_def max_def split: if_splits)
  have "fl x \<le> 2 powr (of_int (exponent x) + 1)"
    using assms(1) by (rule fl_pos_bounds(2))
  also have "\<dots> \<le> 2 powr (of_int (exponent y))"
    using lt by simp
  also have "\<dots> \<le> fl y"
    using y ey by (rule fl_pos_bounds(3))
  finally show ?thesis .
qed

lemma fl_mono:
  assumes "x \<le> y"
  shows "fl x \<le> fl y"
proof -
  consider (pp) "0 < x" | (zp) "x = 0" "0 < y" | (zz) "x = 0" "y = 0" | (nz) "x < 0" "y = 0"
    | (np) "x < 0" "0 < y" | (nn) "x < 0" "y < 0"
    using assms by linarith
  then show ?thesis
  proof cases
    case pp
    then show ?thesis using assms by (rule fl_mono_pos)
  next
    case zp
    then show ?thesis using fl_pos_bounds(1) [of y] by (simp add: fl_zero)
  next
    case zz
    then show ?thesis by simp
  next
    case nz
    then show ?thesis using fl_pos_bounds(1) [of "- x"] by (simp add: fl_minus fl_zero)
  next
    case np
    then show ?thesis using fl_pos_bounds(1) [of "- x"] fl_pos_bounds(1) [of y]
      by (simp add: fl_minus)
  next
    case nn
    then have "fl (- y) \<le> fl (- x)" using assms by (intro fl_mono_pos) simp_all
    then show ?thesis by (simp add: fl_minus)
  qed
qed

text \<open>The rounded number is a nearest double: it is within half a unit in the last place.\<close>

lemma round_even_error: "\<bar>of_int (round_even r) - r\<bar> \<le> 1 / 2"
proof -
  have "of_int \<lfloor>r\<rfloor> \<le> r" "r < of_int \<lfloor>r\<rfloor> + 1" by linarith+
  then show ?thesis
    by (auto simp add: round_even_def Let_def abs_le_iff)
qed

lemma fl_error: "\<bar>fl x - x\<bar> \<le> ulp x / 2"
proof (cases "x = 0")
  case True
  then show ?thesis using ulp_pos [of x] by (simp add: fl_zero)
next
  case False
  have u: "0 < ulp x" by (rule ulp_pos)
  have "fl x - x = (of_int (round_even (x / ulp x)) - x / ulp x) * ulp x"
    using False u by (simp add: fl_def field_simps)
  then have "\<bar>fl x - x\<bar> = \<bar>of_int (round_even (x / ulp x)) - x / ulp x\<bar> * ulp x"
    using u by (simp add: abs_mult)
  also have "\<dots> \<le> 1 / 2 * ulp x"
    using round_even_error [of "x / ulp x"] u by (intro mult_right_mono) simp_all
  finally show ?thesis by simp
qed

lemma fl_four_fifths: "fl (4 / 5) = 7205759403792794 / 2 ^ 53"
  using fl_eqI [of "4 / 5" 53 7205759403792794] by simp

lemma fl_50_four_fifths: "fl (50 * (7205759403792794 / 2 ^ 53)) = 40"
  using fl_eqI [of "50 * (7205759403792794 / 2 ^ 53)" 47 5629499534213120] by simp

lemma fl_80_four_fifths: "fl (80 * (7205759403792794 / 2 ^ 53)) = 64"
  using fl_eqI [of "80 * (7205759403792794 / 2 ^ 53)" 46 4503599627370496] by simp

lemma fl_29_fiftieths: "fl (29 / 50) = 5224175567749775 / 2 ^ 53"
  using fl_eqI [of "29 / 50" 53 5224175567749775] by simp

lemma fl_25_29_fiftieths: "fl (25 * (5224175567749775 / 2 ^ 53)) = 8162774324609023 / 2 ^ 49"
  using fl_eqI [of "25 * (5224175567749775 / 2 ^ 53)" 49 8162774324609023] by simp

lemma fl_pi: "fl pi = Math_PI"
  using fl_eqI [of pi 51 7074237752028440] pi_bounds by (simp add: Math_PI_def)

lemma fl_pi_half: "fl (pi / 2) = Math_PI / 2"
  using fl_eqI [of "pi / 2" 52 7074237752028440] pi_bounds by (simp add: Math_PI_def)

lemma fl_pi_quarter: "fl (pi / 4) = Math_PI / 4"
  using fl_eqI [of "pi / 4" 53 7074237752028440] pi_bounds by (simp add: Math_PI_def)

lemma fl_degrees: "fl (180 / Math_PI) = 8063664102031864 / 2 ^ 47"
  using fl_eqI [of "180 / Math_PI" 47 8063664102031864] by (simp add: Math_PI_def)

lemma fl_45: "fl (Math_PI / 4 * (8063664102031864 / 2 ^ 47)) = 45"
  using fl_eqI [of "Math_PI / 4 * (8063664102031864 / 2 ^ 47)" 47 6333186975989760]
  by (simp add: Math_PI_def)

lemma fl_90: "fl (Math_PI / 2 * (8063664102031864 / 2 ^ 47)) = 90"
  using fl_eqI [of "Math_PI / 2 * (8063664102031864 / 2 ^ 47)" 46 6333186975989760]
  by (simp add: Math_PI_def)

lemma fl_180: "fl (Math_PI * (8063664102031864 / 2 ^ 47)) = 180"
  using fl_eqI [of "Math_PI * (8063664102031864 / 2 ^ 47)" 45 6333186975989760]
  by (simp add: Math_PI_def)

lemma fl_of_int:
  assumes "\<bar>n\<bar> < 2 ^ 53"
  shows "fl (of_int n) = of_int n"
proof (cases "n = 0")
  case True
  then show ?thesis by (simp add: fl_zero)
next
  case False
  let ?x = "real_of_int n"
  have "1 \<le> \<bar>n\<bar>" using False by simp
  then have "real_of_int 1 \<le> real_of_int \<bar>n\<bar>" by (simp only: of_int_le_iff)
  then have one: "1 \<le> \<bar>?x\<bar>" by simp
  have "real_of_int \<bar>n\<bar> < real_of_int (2 ^ 53)"
    using assms by (simp only: of_int_less_iff)
  then have lt: "\<bar>?x\<bar> < 2 ^ 53" by simp
  have "0 \<le> Transcendental.log 2 \<bar>?x\<bar>" using one by simp
  then have e0: "0 \<le> \<lfloor>Transcendental.log 2 \<bar>?x\<bar>\<rfloor>" by simp
  have lo: "2 powr (of_int \<lfloor>Transcendental.log 2 \<bar>?x\<bar>\<rfloor>) \<le> \<bar>?x\<bar>"
    using floor_log_eq_powr_iff [of "\<bar>?x\<bar>" 2 "\<lfloor>Transcendental.log 2 \<bar>?x\<bar>\<rfloor>"] one by simp
  have e53: "\<lfloor>Transcendental.log 2 \<bar>?x\<bar>\<rfloor> \<le> 52"
  proof (rule ccontr)
    assume "\<not> \<lfloor>Transcendental.log 2 \<bar>?x\<bar>\<rfloor> \<le> 52"
    then have "53 \<le> \<lfloor>Transcendental.log 2 \<bar>?x\<bar>\<rfloor>" by simp
    then have "(53 :: real) \<le> of_int \<lfloor>Transcendental.log 2 \<bar>?x\<bar>\<rfloor>" by linarith
    then have "2 powr (53 :: real) \<le> 2 powr (of_int \<lfloor>Transcendental.log 2 \<bar>?x\<bar>\<rfloor>)"
      by (subst powr_le_cancel_iff) simp_all
    with lo lt show False unfolding two_powr_53 by linarith
  qed
  define j where "j = nat (52 - \<lfloor>Transcendental.log 2 \<bar>?x\<bar>\<rfloor>)"
  have ex: "exponent ?x = \<lfloor>Transcendental.log 2 \<bar>?x\<bar>\<rfloor>"
    using e0 by (simp add: exponent_def)
  have "real_of_int (exponent ?x) - 52 = - real j"
    using e53 by (simp add: ex j_def)
  then have u: "ulp ?x = 1 / 2 ^ j"
    using powr_minus [of "2 :: real" "real j"]
    by (simp add: ulp_def powr_realpow inverse_eq_divide)
  have "?x / ulp ?x = of_int (n * 2 ^ j)"
    by (simp add: u)
  then have r: "round_even (?x / ulp ?x) = n * 2 ^ j"
    by (simp only: round_even_of_int)
  show ?thesis
    using False by (simp add: fl_def r) (simp add: u)
qed

lemma fl_numerals: "fl 1 = 1" "fl 40 = 40" "fl 50 = 50" "fl 1600 = 1600" "fl 2500 = 2500" "fl 5000 = 5000"
  using fl_of_int [of 1] fl_of_int [of 40] fl_of_int [of 50] fl_of_int [of 1600]
    fl_of_int [of 2500] fl_of_int [of 5000] by simp_all

section \<open>The angle of the pointer\<close>


lemma atan2_range: "- pi < atan2 y x \<and> atan2 y x \<le> pi"
proof -
  have b: "- (pi / 2) < arctan (y / x)" "arctan (y / x) < pi / 2"
    using arctan_bounded [of "y / x"] by simp_all
  note p = pi_gt_zero
  consider (pos) "0 < x" | (neg_up) "x < 0" "0 \<le> y" | (neg_down) "x < 0" "y < 0" | (zero) "x = 0"
    by linarith
  then show ?thesis
  proof cases
    case pos
    then have "atan2 y x = arctan (y / x)" by (simp add: atan2_def)
    with b p show ?thesis by (intro conjI; linarith)
  next
    case neg_up
    then have "y / x \<le> 0" by (simp add: divide_nonneg_neg)
    then have "arctan (y / x) \<le> 0" using arctan_le_iff [of "y / x" 0] by simp
    moreover from neg_up have "atan2 y x = arctan (y / x) + pi" by (simp add: atan2_def)
    ultimately show ?thesis using b p by (intro conjI; linarith)
  next
    case neg_down
    then have "0 < y / x" by (simp add: divide_neg_neg)
    then have "0 < arctan (y / x)" using arctan_less_iff [of 0 "y / x"] by simp
    moreover from neg_down have "atan2 y x = arctan (y / x) - pi" by (simp add: atan2_def)
    ultimately show ?thesis using b p by (intro conjI; linarith)
  next
    case zero
    then have "atan2 y x = pi / 2 \<or> atan2 y x = - (pi / 2) \<or> atan2 y x = 0"
      by (simp add: atan2_def)
    with p show ?thesis by (intro conjI; linarith)
  qed
qed

text \<open>
  \<open>atan2 y x\<close> is the angle of the point \<open>(x, y)\<close>: with the distance from the origin it
  gives the point back.
\<close>

lemma polar_pos:
  fixes x y :: real
  assumes "0 < x"
  shows "sqrt (x * x + y * y) * cos (arctan (y / x)) = x"
    and "sqrt (x * x + y * y) * sin (arctan (y / x)) = y"
proof -
  have r: "sqrt (1 + (y / x)\<^sup>2) = sqrt (x * x + y * y) / x"
  proof -
    have "1 + (y / x)\<^sup>2 = (x * x + y * y) / (x * x)"
      using assms by (simp add: power2_eq_square field_simps)
    then have "sqrt (1 + (y / x)\<^sup>2) = sqrt (x * x + y * y) / sqrt (x * x)"
      by (simp add: real_sqrt_divide)
    with assms show ?thesis by simp
  qed
  have pos: "0 < sqrt (x * x + y * y)"
    using assms by (simp add: add_pos_nonneg)
  show "sqrt (x * x + y * y) * cos (arctan (y / x)) = x"
    using pos assms by (simp add: cos_arctan r)
  show "sqrt (x * x + y * y) * sin (arctan (y / x)) = y"
    using pos assms by (simp add: sin_arctan r)
qed

lemma polar_neg:
  fixes x y :: real
  assumes "x < 0"
  shows "sqrt (x * x + y * y) * cos (arctan (y / x)) = - x"
    and "sqrt (x * x + y * y) * sin (arctan (y / x)) = - y"
  using polar_pos [of "- x" "- y"] assms by simp_all

lemma atan2_polar:
  "sqrt (x * x + y * y) * cos (atan2 y x) = x \<and> sqrt (x * x + y * y) * sin (atan2 y x) = y"
proof -
  consider (pos) "0 < x" | (neg) "x < 0" | (up) "x = 0" "0 < y" | (down) "x = 0" "y < 0"
    | (zero) "x = 0" "y = 0"
    by linarith
  then show ?thesis
  proof cases
    case pos
    then show ?thesis by (simp add: atan2_def polar_pos)
  next
    case neg
    then show ?thesis using polar_neg [OF neg, of y] by (simp add: atan2_def)
  next
    case up
    then show ?thesis by (simp add: atan2_def)
  next
    case down
    then show ?thesis by (simp add: atan2_def)
  next
    case zero
    then show ?thesis by (simp add: atan2_def)
  qed
qed

lemma Math_round_of_int: "Math_round (of_int n) = n"
  unfolding Math_round_def by (rule floor_unique) simp_all

lemma Math_round_numerals: "Math_round 0 = 0" "Math_round 40 = 40" "Math_round 50 = 50" "Math_round 64 = 64"
  using Math_round_of_int [of 0] Math_round_of_int [of 40] Math_round_of_int [of 50]
    Math_round_of_int [of 64] by simp_all

lemma Math_sqrt_zero: "Math_sqrt 0 = 0"
  by (simp add: Math_sqrt_def fl_zero)

lemma Math_sqrt_1600: "Math_sqrt 1600 = 40"
proof -
  have "sqrt 1600 = 40" by (rule real_sqrt_unique) simp_all
  then show ?thesis by (simp add: Math_sqrt_def fl_numerals)
qed

lemma Math_sqrt_841: "Math_sqrt 841 = 29"
proof -
  have "sqrt 841 = 29" by (rule real_sqrt_unique) simp_all
  then show ?thesis using fl_of_int [of 29] by (simp add: Math_sqrt_def)
qed

lemma Math_sqrt_5000: "50 \<le> Math_sqrt 5000"
proof -
  have "50 \<le> sqrt 5000" by (rule real_le_rsqrt) simp
  then have "fl 50 \<le> fl (sqrt 5000)" by (rule fl_mono)
  then show ?thesis by (simp add: Math_sqrt_def fl_numerals)
qed

lemma Math_atan2_origin: "Math_atan2 0 0 = 0"
  by (simp add: Math_atan2_def atan2_def fl_zero)

lemma Math_atan2_east: "0 < x \<Longrightarrow> Math_atan2 0 x = 0"
  by (simp add: Math_atan2_def atan2_def fl_zero)

lemma Math_atan2_south: "0 < y \<Longrightarrow> Math_atan2 y 0 = Math_PI / 2"
  by (simp add: Math_atan2_def atan2_def fl_pi_half)

lemma Math_atan2_west: "x < 0 \<Longrightarrow> Math_atan2 0 x = Math_PI"
  by (simp add: Math_atan2_def atan2_def fl_pi)

lemma Math_atan2_north: "y < 0 \<Longrightarrow> Math_atan2 y 0 = - (Math_PI / 2)"
  by (simp add: Math_atan2_def atan2_def fl_pi_half fl_minus)

lemma Math_atan2_diagonal: "0 < x \<Longrightarrow> Math_atan2 x x = Math_PI / 4"
  by (simp add: Math_atan2_def atan2_def arctan_one fl_pi_quarter)

lemma degrees_0: "fl (0 * fl (180 / Math_PI)) = 0"
  by (simp add: fl_zero)

lemma degrees_45: "fl (Math_PI / 4 * fl (180 / Math_PI)) = 45"
  by (simp only: fl_degrees fl_45)

lemma degrees_90: "fl (Math_PI / 2 * fl (180 / Math_PI)) = 90"
  by (simp only: fl_degrees fl_90)

lemma degrees_180: "fl (Math_PI * fl (180 / Math_PI)) = 180"
  by (simp only: fl_degrees fl_180)

lemma degrees_minus_90: "fl (- (Math_PI / 2) * fl (180 / Math_PI)) = - 90"
  using degrees_90 by (simp only: mult_minus_left fl_minus)

lemma Math_atan2_range: "- Math_PI \<le> Math_atan2 y x \<and> Math_atan2 y x \<le> Math_PI"
proof -
  have "fl (- pi) \<le> fl (atan2 y x)"
    using atan2_range [of y x] by (intro fl_mono) simp
  moreover have "fl (atan2 y x) \<le> fl pi"
    using atan2_range [of y x] by (intro fl_mono) simp
  ultimately show ?thesis
    by (simp add: Math_atan2_def fl_minus fl_pi)
qed

lemma angleDeg_range:
  "- 180 \<le> fl (Math_atan2 y x * fl (180 / Math_PI))
   \<and> fl (Math_atan2 y x * fl (180 / Math_PI)) \<le> 180"
proof -
  let ?c = "fl (180 / Math_PI)"
  have c: "0 \<le> ?c" by (simp only: fl_degrees) simp
  have "Math_atan2 y x * ?c \<le> Math_PI * ?c"
    using Math_atan2_range [of y x] c by (intro mult_right_mono) simp_all
  then have hi: "fl (Math_atan2 y x * ?c) \<le> fl (Math_PI * ?c)"
    by (rule fl_mono)
  have "- Math_PI * ?c \<le> Math_atan2 y x * ?c"
    using Math_atan2_range [of y x] c by (intro mult_right_mono) simp_all
  then have "fl (- (Math_PI * ?c)) \<le> fl (Math_atan2 y x * ?c)"
    by (intro fl_mono) simp
  then have lo: "- fl (Math_PI * ?c) \<le> fl (Math_atan2 y x * ?c)"
    by (simp only: fl_minus)
  from lo hi show ?thesis
    by (simp only: degrees_180)
qed

lemma fl_nonneg: "0 \<le> x \<Longrightarrow> 0 \<le> fl x"
  using fl_mono [of 0 x] by (simp add: fl_zero)

lemma squares_nonneg: "0 \<le> fl (fl (dx * dx) + fl (dy * dy))"
  by (intro fl_nonneg add_nonneg_nonneg) simp_all

lemma magnitude_bounds:
  "0 \<le> fl (min (Math_sqrt (fl (fl (dx * dx) + fl (dy * dy)))) maxDistance / maxDistance)"
  "fl (min (Math_sqrt (fl (fl (dx * dx) + fl (dy * dy)))) maxDistance / maxDistance) \<le> 1"
proof -
  let ?d = "min (Math_sqrt (fl (fl (dx * dx) + fl (dy * dy)))) maxDistance / maxDistance"
  have "0 \<le> Math_sqrt (fl (fl (dx * dx) + fl (dy * dy)))"
    unfolding Math_sqrt_def using squares_nonneg [of dx dy] by (intro fl_nonneg) simp
  then have d: "0 \<le> ?d" "?d \<le> 1"
    by (simp_all add: maxDistance_def)
  from d(1) show "0 \<le> fl ?d" by (rule fl_nonneg)
  from d(2) have "fl ?d \<le> fl 1" by (rule fl_mono)
  then show "fl ?d \<le> 1" by (simp add: fl_numerals)
qed

lemma magnitude_0_0:
  "fl (min (Math_sqrt (fl (fl (0 * 0) + fl (0 * 0)))) maxDistance / maxDistance) = 0"
  by (simp add: fl_zero Math_sqrt_zero maxDistance_def)

lemma magnitude_40_0:
  "fl (min (Math_sqrt (fl (fl (40 * 40) + fl (0 * 0)))) maxDistance / maxDistance) = fl (4 / 5)"
  by (simp add: fl_zero fl_numerals Math_sqrt_1600 maxDistance_def)

lemma magnitude_0_40:
  "fl (min (Math_sqrt (fl (fl (0 * 0) + fl (40 * 40)))) maxDistance / maxDistance) = fl (4 / 5)"
  by (simp add: fl_zero fl_numerals Math_sqrt_1600 maxDistance_def)

lemma magnitude_29_0:
  "fl (min (Math_sqrt (fl (fl (29 * 29) + fl (0 * 0)))) maxDistance / maxDistance) = fl (29 / 50)"
  using fl_of_int [of 841] by (simp add: fl_zero Math_sqrt_841 maxDistance_def)

lemma magnitude_50_50:
  "fl (min (Math_sqrt (fl (fl (50 * 50) + fl (50 * 50)))) maxDistance / maxDistance) = 1"
  using Math_sqrt_5000 by (simp add: fl_numerals maxDistance_def)

lemma speed_80_four_fifths: "Math_round (fl (real_of_int 80 * fl (4 / 5))) = 64"
  by (simp only: of_int_numeral fl_four_fifths fl_80_four_fifths Math_round_numerals)

lemma speed_50_four_fifths: "Math_round (fl (real_of_int 50 * fl (4 / 5))) = 40"
  by (simp only: of_int_numeral fl_four_fifths fl_50_four_fifths Math_round_numerals)

lemma speed_25_29_fiftieths: "Math_round (fl (real_of_int 25 * fl (29 / 50))) = 14"
proof -
  have "Math_round (8162774324609023 / 2 ^ 49) = 14"
    unfolding Math_round_def by (rule floor_unique) simp_all
  then show ?thesis
    by (simp only: of_int_numeral fl_29_fiftieths fl_25_29_fiftieths)
qed

lemma exact_speed_25_29_fiftieths: "round (real_of_int 25 * (29 / 50 :: real)) = 15"
  by (simp add: round_def)

lemma direction_of_angleDeg_not_Stop: "direction_of_angleDeg a \<noteq> Stop"
  by (simp add: direction_of_angleDeg_def)

lemma request_of_send:
  "requests (sendMovementCommand d v s) = requests s @ [movement_request d v]"
  by (simp add: sendMovementCommand_def callApi_send_def log_def movement_request_def
      baseUrl_def endpoint_movement_def)

lemma handleMove_dragging:
  assumes "isDragging s" and "client_pos e = Some (cx, cy)"
    and "fl (cx - startX s) = dx" and "fl (cy - startY s) = dy"
    and "min (Math_sqrt (fl (fl (dx * dx) + fl (dy * dy)))) maxDistance = len"
  shows "handleMove e s = Normal (updateMovement
    (s\<lparr>handle_transition := '''',
       currentX := fl (Math_cos (Math_atan2 dy dx) * len),
       currentY := fl (Math_sin (Math_atan2 dy dx) * len),
       handle_translate := (fl (Math_cos (Math_atan2 dy dx) * len),
                            fl (Math_sin (Math_atan2 dy dx) * len)),
       currentMovement := (currentMovement s)\<lparr>angle := Math_atan2 dy dx,
          distance := fl (len / maxDistance)\<rparr>\<rparr>))"
  using assms by (simp add: handleMove_def Let_def)

lemma updateMovement_requests:
  "requests (updateMovement s) = requests s @
     [movement_request
        (direction_of_angleDeg (fl (angle (currentMovement s) * fl (180 / Math_PI))))
        (Math_round (fl (real_of_int (speed (currentMovement s)) * distance (currentMovement s))))]"
  by (simp add: updateMovement_def Let_def request_of_send)

lemma sendMovementCommand_frame:
  "currentMovement (sendMovementCommand d v s) = currentMovement s"
  "isDragging (sendMovementCommand d v s) = isDragging s"
  "window_currentMovement (sendMovementCommand d v s) = window_currentMovement s"
  "buttons (sendMovementCommand d v s) = buttons s"
  "lit (sendMovementCommand d v s) = lit s"
  "timers (sendMovementCommand d v s) = timers s"
  "now (sendMovementCommand d v s) = now s"
  "slider_value (sendMovementCommand d v s) = slider_value s"
  "dest_value (sendMovementCommand d v s) = dest_value s"
  "startX (sendMovementCommand d v s) = startX s"
  "startY (sendMovementCommand d v s) = startY s"
  by (simp_all add: sendMovementCommand_def callApi_send_def log_def)

lemma updateMovement_frame:
  "currentMovement (updateMovement s) = currentMovement s"
  "isDragging (updateMovement s) = isDragging s"
  "window_currentMovement (updateMovement s) = window_currentMovement s"
  "buttons (updateMovement s) = buttons s"
  "timers (updateMovement s) = timers s"
  "startX (updateMovement s) = startX s"
  "startY (updateMovement s) = startY s"
  by (simp_all add: updateMovement_def Let_def sendMovementCommand_frame)

lemma handleMove_requests:
  assumes drag: "isDragging s" and pos: "client_pos e = Some (cx, cy)"
    and dx: "fl (cx - startX s) = dx" and dy: "fl (cy - startY s) = dy"
    and m: "fl (min (Math_sqrt (fl (fl (dx * dx) + fl (dy * dy)))) maxDistance / maxDistance) = m"
    and deg: "fl (Math_atan2 dy dx * fl (180 / Math_PI)) = deg"
  shows "requests (uncaught (handleMove e s)) = requests s @
     [movement_request (direction_of_angleDeg deg)
        (Math_round (fl (real_of_int (speed (currentMovement s)) * m)))]"
proof -
  have "requests (uncaught (handleMove e s)) = requests s @
     [movement_request (direction_of_angleDeg (fl (Math_atan2 dy dx * fl (180 / Math_PI))))
        (Math_round (fl (real_of_int (speed (currentMovement s))
           * fl (min (Math_sqrt (fl (fl (dx * dx) + fl (dy * dy)))) maxDistance / maxDistance))))]"
    by (simp add: handleMove_dragging [OF drag pos dx dy refl] uncaught_def
        updateMovement_requests)
  then show ?thesis unfolding m deg .
qed

lemma handleMove_movement:
  assumes drag: "isDragging s" and pos: "client_pos e = Some (cx, cy)"
    and dx: "fl (cx - startX s) = dx" and dy: "fl (cy - startY s) = dy"
    and m: "fl (min (Math_sqrt (fl (fl (dx * dx) + fl (dy * dy)))) maxDistance / maxDistance) = m"
  shows "currentMovement (uncaught (handleMove e s)) =
     \<lparr>angle = Math_atan2 dy dx, distance = m, speed = speed (currentMovement s)\<rparr>"
proof -
  have "currentMovement (uncaught (handleMove e s)) =
     \<lparr>angle = Math_atan2 dy dx,
      distance = fl (min (Math_sqrt (fl (fl (dx * dx) + fl (dy * dy)))) maxDistance / maxDistance),
      speed = speed (currentMovement s)\<rparr>"
    by (simp add: handleMove_dragging [OF drag pos dx dy refl] uncaught_def
        updateMovement_frame)
  then show ?thesis unfolding m .
qed

lemma handleMove_start:
  assumes "isDragging s" and "client_pos e = Some (cx, cy)"
  shows "isDragging (uncaught (handleMove e s))"
    and "startX (uncaught (handleMove e s)) = startX s"
    and "startY (uncaught (handleMove e s)) = startY s"
  using assms(1)
  by (simp_all add: handleMove_dragging [OF assms refl refl refl] uncaught_def
      updateMovement_frame)

text \<open>Pressing the joystick starts the drag at the centre of the base and handles the move.\<close>

lemma press_is_move:
  "step s (PointerDown e) = uncaught (handleMove e
     (s\<lparr>isDragging := True, startX := fst (base_center s), startY := snd (base_center s)\<rparr>))"
  by (simp add: step_def handleStart_def)

lemma press_requests:
  assumes pos: "client_pos e = Some (cx, cy)"
    and dx: "fl (cx - fst (base_center s)) = dx" and dy: "fl (cy - snd (base_center s)) = dy"
    and m: "fl (min (Math_sqrt (fl (fl (dx * dx) + fl (dy * dy)))) maxDistance / maxDistance) = m"
    and deg: "fl (Math_atan2 dy dx * fl (180 / Math_PI)) = deg"
  shows "requests (step s (PointerDown e)) = requests s @
     [movement_request (direction_of_angleDeg deg)
        (Math_round (fl (real_of_int (speed (currentMovement s)) * m)))]"
proof -
  let ?s0 = "s\<lparr>isDragging := True, startX := fst (base_center s), startY := snd (base_center s)\<rparr>"
  have drag: "isDragging ?s0" by simp
  have dx0: "fl (cx - startX ?s0) = dx" using dx by simp
  have dy0: "fl (cy - startY ?s0) = dy" using dy by simp
  from handleMove_requests [OF drag pos dx0 dy0 m deg] show ?thesis
    by (simp add: press_is_move)
qed

section \<open>The boundaries of the buckets\<close>

text \<open>
  C4, as stated, puts the angle of exactly 45 degrees into the bucket of backward. The
  comparison of the source is \<^verbatim>\<open>angleDeg <= 45\<close>: at 45 degrees the direction is right, as
  on the diagonal offset \<open>(50, 50)\<close>.
\<close>

theorem boundary_45_is_right:
  "direction_of_angleDeg 45 = Right \<and> direction_of_angleDeg 45 \<noteq> Backward
   \<and> requests (step (initial_state (100, 100) []) (PointerDown (MouseEv 150 150)))
       = [movement_request Right 50]"
proof -
  let ?i = "initial_state (100, 100) []"
  have pos: "client_pos (MouseEv 150 150) = Some (150, 150)"
    by (simp add: client_pos_def)
  have dx: "fl (150 - fst (base_center ?i)) = 50" and dy: "fl (150 - snd (base_center ?i)) = 50"
    by (simp_all add: initial_state_def fl_numerals)
  have "Math_atan2 50 50 = Math_PI / 4"
    by (rule Math_atan2_diagonal) simp
  then have deg: "fl (Math_atan2 50 50 * fl (180 / Math_PI)) = 45"
    by (simp only: degrees_45)
  have sp: "speed (currentMovement ?i) = 50" "requests ?i = []"
    by (simp_all add: initial_state_def)
  have v: "Math_round (fl (real_of_int 50 * 1)) = 50"
    by (simp add: fl_numerals Math_round_numerals)
  have "requests (step ?i (PointerDown (MouseEv 150 150))) = requests ?i @
     [movement_request (direction_of_angleDeg 45)
        (Math_round (fl (real_of_int (speed (currentMovement ?i)) * 1)))]"
    by (rule press_requests [OF pos dx dy magnitude_50_50 deg])
  also have "\<dots> = [movement_request Right 50]"
    unfolding sp v by (simp add: direction_of_angleDeg_def)
  finally show ?thesis
    by (simp add: direction_of_angleDeg_def)
qed

text \<open>
  C4, amended. Every bucket is open below and closed above: an angle is right exactly when it
  is in \<open>(-45, 45]\<close>, backward in \<open>(45, 135]\<close>, forward in \<open>(-135, -45]\<close> and left
  otherwise; so each of the four boundary angles belongs to the bucket that ends there:
  45 to right, 135 to backward, -135 to left and -45 to forward.
\<close>

theorem buckets_closed_above:
  "(direction_of_angleDeg a = Right \<longleftrightarrow> - 45 < a \<and> a \<le> 45)
   \<and> (direction_of_angleDeg a = Backward \<longleftrightarrow> 45 < a \<and> a \<le> 135)
   \<and> (direction_of_angleDeg a = Left \<longleftrightarrow> 135 < a \<or> a \<le> - 135)
   \<and> (direction_of_angleDeg a = Forward \<longleftrightarrow> - 135 < a \<and> a \<le> - 45)
   \<and> direction_of_angleDeg 45 = Right
   \<and> direction_of_angleDeg 135 = Backward
   \<and> direction_of_angleDeg (- 135) = Left
   \<and> direction_of_angleDeg (- 45) = Forward"
  unfolding direction_of_angleDeg_def by auto

section \<open>The pointer at the centre\<close>

text \<open>
  C1, amended. A move to the exact centre while a drag is active stores magnitude 0 and angle
  0 and sends one command, with speed 0 and the direction of the bucket of angle 0, which is
  right: the zero distance does not override the bucket.
\<close>

theorem center_move_command:
  assumes drag: "isDragging s"
    and pos: "client_pos e = Some (startX s, startY s)"
  shows "requests (uncaught (handleMove e s)) = requests s @ [movement_request Right 0]
       \<and> distance (currentMovement (uncaught (handleMove e s))) = 0
       \<and> angle (currentMovement (uncaught (handleMove e s))) = 0
       \<and> speed (currentMovement (uncaught (handleMove e s))) = speed (currentMovement s)"
proof -
  have dx: "fl (startX s - startX s) = 0" and dy: "fl (startY s - startY s) = 0"
    by (simp_all add: fl_zero)
  have deg: "fl (Math_atan2 0 0 * fl (180 / Math_PI)) = 0"
    by (simp add: Math_atan2_origin fl_zero)
  show ?thesis
    by (simp add: handleMove_requests [OF drag pos dx dy magnitude_0_0 deg]
        handleMove_movement [OF drag pos dx dy magnitude_0_0]
        Math_atan2_origin direction_of_angleDeg_def fl_zero Math_round_numerals)
qed

text \<open>
  C1, as stated, expects a stop command for a pointer at the exact centre. Pressing the
  joystick at its centre sends right with speed 0.
\<close>

theorem center_press_sends_right:
  "requests (step (initial_state (100, 100) []) (PointerDown (MouseEv 100 100)))
     = [movement_request Right 0]
   \<and> \<not> is_stop_request (movement_request Right 0)"
proof -
  let ?i = "initial_state (100, 100) []"
  have pos: "client_pos (MouseEv 100 100) = Some (100, 100)"
    by (simp add: client_pos_def)
  have dx: "fl (100 - fst (base_center ?i)) = 0" and dy: "fl (100 - snd (base_center ?i)) = 0"
    by (simp_all add: initial_state_def fl_zero)
  have deg: "fl (Math_atan2 0 0 * fl (180 / Math_PI)) = 0"
    by (simp add: Math_atan2_origin fl_zero)
  have "requests (step ?i (PointerDown (MouseEv 100 100))) = requests ?i @
     [movement_request (direction_of_angleDeg 0)
        (Math_round (fl (real_of_int (speed (currentMovement ?i)) * 0)))]"
    by (rule press_requests [OF pos dx dy magnitude_0_0 deg])
  also have "\<dots> = [movement_request Right 0]"
    by (simp add: direction_of_angleDeg_def fl_zero Math_round_numerals initial_state_def)
  finally show ?thesis
    by (simp add: is_stop_request_def movement_request_def)
qed

theorem center_move_command_witness:
  "requests (run [PointerDown (MouseEv 140 100), PointerMove (MouseEv 100 100)]
      (initial_state (100, 100) []))
     = [movement_request Right 40, movement_request Right 0]
   \<and> distance (currentMovement (run [PointerDown (MouseEv 140 100), PointerMove (MouseEv 100 100)]
      (initial_state (100, 100) []))) = 0"
proof -
  let ?i = "initial_state (100, 100) []"
  let ?s1 = "step ?i (PointerDown (MouseEv 140 100))"
  have pos0: "client_pos (MouseEv 140 100) = Some (140, 100)"
    by (simp add: client_pos_def)
  have dx: "fl (140 - fst (base_center ?i)) = 40" and dy: "fl (100 - snd (base_center ?i)) = 0"
    by (simp_all add: initial_state_def fl_numerals fl_zero)
  have deg: "fl (Math_atan2 0 40 * fl (180 / Math_PI)) = 0"
    by (simp add: Math_atan2_east fl_zero)
  have sp: "speed (currentMovement ?i) = 50" "requests ?i = []"
    by (simp_all add: initial_state_def)
  have "requests ?s1 = requests ?i @
     [movement_request (direction_of_angleDeg 0)
        (Math_round (fl (real_of_int (speed (currentMovement ?i)) * fl (4 / 5))))]"
    by (rule press_requests [OF pos0 dx dy magnitude_40_0 deg])
  also have "\<dots> = [movement_request Right 40]"
    unfolding sp speed_50_four_fifths by (simp add: direction_of_angleDeg_def)
  finally have r1: "requests ?s1 = [movement_request Right 40]" .
  let ?s0 = "?i\<lparr>isDragging := True, startX := fst (base_center ?i), startY := snd (base_center ?i)\<rparr>"
  have drag0: "isDragging ?s0" by simp
  have s1: "?s1 = uncaught (handleMove (MouseEv 140 100) ?s0)"
    by (rule press_is_move)
  have drag1: "isDragging ?s1"
    unfolding s1 by (rule handleMove_start(1) [OF drag0 pos0])
  have "startX ?s1 = 100" "startY ?s1 = 100"
    unfolding s1
    by (simp_all only: handleMove_start(2,3) [OF drag0 pos0]) (simp_all add: initial_state_def)
  then have pos1: "client_pos (MouseEv 100 100) = Some (startX ?s1, startY ?s1)"
    by (simp add: client_pos_def)
  have run: "run [PointerDown (MouseEv 140 100), PointerMove (MouseEv 100 100)] ?i
      = uncaught (handleMove (MouseEv 100 100) ?s1)"
    by (simp add: run_def) (simp add: step_def)
  from center_move_command [OF drag1 pos1] r1 show ?thesis
    unfolding run by simp
qed

section \<open>The command of a move\<close>

text \<open>
  C7. A move of the pointer while a drag is active sends one command. The code works on the
  offsets \<open>dx\<close> and \<open>dy\<close> of the pointer from the centre of the base, on the angle
  \<^verbatim>\<open>Math.atan2(dy, dx) * (180 / Math.PI)\<close> in degrees and on the magnitude
  \<^verbatim>\<open>Math.min(Math.sqrt(dx * dx + dy * dy), R) / R\<close> with \<open>R = 50\<close>, all in double arithmetic.
  The direction of the command follows the four buckets of the angle: \<open>(-45, 45]\<close> right,
  \<open>(45, 135]\<close> backward, \<open>(135, 180]\<close> and \<open>[-180, -135]\<close> left, \<open>(-135, -45]\<close> forward
  (the angle is between \<open>-180\<close> and \<open>180\<close>). The magnitude is stored and is between 0 and 1;
  the speed sent is \<^verbatim>\<open>Math.round\<close> of the stored speed times the magnitude. With the slider
  at 80 and the offset \<open>(40, 0)\<close>: magnitude \<open>0.8\<close> (the double), direction right, speed 64.
\<close>

theorem joystick_move_command:
  assumes drag: "isDragging s"
    and pos: "client_pos e = Some (cx, cy)"
    and dx: "dx = fl (cx - startX s)" and dy: "dy = fl (cy - startY s)"
    and deg: "deg = fl (Math_atan2 dy dx * fl (180 / Math_PI))"
    and m: "m = fl (min (Math_sqrt (fl (fl (dx * dx) + fl (dy * dy)))) maxDistance / maxDistance)"
  shows "\<exists>d. requests (uncaught (handleMove e s)) = requests s @
            [movement_request d (Math_round (fl (real_of_int (speed (currentMovement s)) * m)))]
         \<and> (d = Right \<longleftrightarrow> - 45 < deg \<and> deg \<le> 45)
         \<and> (d = Backward \<longleftrightarrow> 45 < deg \<and> deg \<le> 135)
         \<and> (d = Left \<longleftrightarrow> (135 < deg \<and> deg \<le> 180) \<or> (- 180 \<le> deg \<and> deg \<le> - 135))
         \<and> (d = Forward \<longleftrightarrow> - 135 < deg \<and> deg \<le> - 45)
         \<and> distance (currentMovement (uncaught (handleMove e s))) = m
         \<and> angle (currentMovement (uncaught (handleMove e s))) = Math_atan2 dy dx
         \<and> speed (currentMovement (uncaught (handleMove e s))) = speed (currentMovement s)
         \<and> 0 \<le> m \<and> m \<le> 1"
proof -
  have r: "- 180 \<le> deg" "deg \<le> 180"
    unfolding deg using angleDeg_range [of dy dx] by simp_all
  have buckets:
    "(direction_of_angleDeg deg = Right \<longleftrightarrow> - 45 < deg \<and> deg \<le> 45)"
    "(direction_of_angleDeg deg = Backward \<longleftrightarrow> 45 < deg \<and> deg \<le> 135)"
    "(direction_of_angleDeg deg = Left \<longleftrightarrow> (135 < deg \<and> deg \<le> 180) \<or> (- 180 \<le> deg \<and> deg \<le> - 135))"
    "(direction_of_angleDeg deg = Forward \<longleftrightarrow> - 135 < deg \<and> deg \<le> - 45)"
    using r unfolding direction_of_angleDeg_def by auto
  have b: "0 \<le> m" "m \<le> 1"
    unfolding m by (rule magnitude_bounds)+
  have req: "requests (uncaught (handleMove e s)) = requests s @
     [movement_request (direction_of_angleDeg deg)
        (Math_round (fl (real_of_int (speed (currentMovement s)) * m)))]"
    by (rule handleMove_requests [OF drag pos dx [symmetric] dy [symmetric] m [symmetric]
          deg [symmetric]])
  have mv: "currentMovement (uncaught (handleMove e s)) =
     \<lparr>angle = Math_atan2 dy dx, distance = m, speed = speed (currentMovement s)\<rparr>"
    by (rule handleMove_movement [OF drag pos dx [symmetric] dy [symmetric] m [symmetric]])
  show ?thesis
    apply (rule exI [of _ "direction_of_angleDeg deg"])
    apply (simp only: buckets)
    apply (simp add: req mv b)
    done
qed

theorem joystick_move_command_witness:
  "requests (step (step (initial_state (100, 100) []) (SliderInput 80)) (PointerDown (MouseEv 140 100)))
     = [movement_request Right 64]
   \<and> distance (currentMovement
        (step (step (initial_state (100, 100) []) (SliderInput 80)) (PointerDown (MouseEv 140 100))))
     = fl (4 / 5)
   \<and> fl (4 / 5) = 3602879701896397 / 2 ^ 52"
proof -
  let ?s = "(sliderInput 80 (initial_state (100, 100) []))\<lparr>isDragging := True,
              startX := 100, startY := 100\<rparr>"
  have s80: "sliderInput 80 (initial_state (100, 100) [])
      = (initial_state (100, 100) [])\<lparr>slider_value := 80, speed_text := 80,
           currentMovement := \<lparr>angle = 0, distance = 0, speed = 80\<rparr>\<rparr>"
    by (simp add: sliderInput_def initial_state_def Let_def)
  have start: "step (step (initial_state (100, 100) []) (SliderInput 80)) (PointerDown (MouseEv 140 100))
      = uncaught (handleMove (MouseEv 140 100) ?s)"
    by (simp add: step_def handleStart_def s80) (simp add: initial_state_def)
  have drag: "isDragging ?s" by simp
  have pos: "client_pos (MouseEv 140 100) = Some (140, 100)"
    by (simp add: client_pos_def)
  have dx: "40 = fl (140 - startX ?s)" and dy: "0 = fl (100 - startY ?s)"
    by (simp_all add: fl_numerals fl_zero)
  have deg: "0 = fl (Math_atan2 0 40 * fl (180 / Math_PI))"
    by (simp add: Math_atan2_east fl_zero)
  have m: "fl (4 / 5)
      = fl (min (Math_sqrt (fl (fl (40 * 40) + fl (0 * 0)))) maxDistance / maxDistance)"
    by (rule magnitude_40_0 [symmetric])
  from joystick_move_command [OF drag pos dx dy deg m]
  obtain d where
    req: "requests (uncaught (handleMove (MouseEv 140 100) ?s)) = requests ?s @
            [movement_request d (Math_round (fl (real_of_int (speed (currentMovement ?s)) * fl (4 / 5))))]"
    and right: "d = Right \<longleftrightarrow> - 45 < (0 :: real) \<and> (0 :: real) \<le> 45"
    and dist: "distance (currentMovement (uncaught (handleMove (MouseEv 140 100) ?s))) = fl (4 / 5)"
    by blast
  from right have d: "d = Right" by simp
  have sp: "speed (currentMovement ?s) = 80" "requests ?s = []"
    by (simp_all add: s80) (simp_all add: initial_state_def)
  have v: "fl (4 / 5) = 3602879701896397 / 2 ^ 52"
    by (simp add: fl_four_fifths)
  from req dist v show ?thesis
    unfolding start d sp speed_80_four_fifths by simp
qed

text \<open>
  The four directions of the joystick, at the speed of the slider's initial value 50: an
  offset to the right of the centre, below it, to its left and above it (the y axis of the
  page points down, and the code sends backward for the lower half and forward for the
  upper one).
\<close>

lemma joystick_four_directions:
  "requests (step (initial_state (100, 100) []) (PointerDown (MouseEv 140 100)))
     = [movement_request Right 40]
   \<and> requests (step (initial_state (100, 100) []) (PointerDown (MouseEv 100 140)))
     = [movement_request Backward 40]
   \<and> requests (step (initial_state (100, 100) []) (PointerDown (MouseEv 60 100)))
     = [movement_request Left 40]
   \<and> requests (step (initial_state (100, 100) []) (PointerDown (TouchEv [(100, 60)])))
     = [movement_request Forward 40]"
proof -
  let ?i = "initial_state (100, 100) []"
  have sp: "speed (currentMovement ?i) = 50" "requests ?i = []"
    by (simp_all add: initial_state_def)
  have c: "fst (base_center ?i) = 100" "snd (base_center ?i) = 100"
    by (simp_all add: initial_state_def)
  have x0: "fl (100 - fst (base_center ?i)) = 0" and y0: "fl (100 - snd (base_center ?i)) = 0"
    by (simp_all add: c fl_zero)
  have x40: "fl (140 - fst (base_center ?i)) = 40" and y40: "fl (140 - snd (base_center ?i)) = 40"
    by (simp_all add: c fl_numerals)
  have xm40: "fl (60 - fst (base_center ?i)) = - 40" and ym40: "fl (60 - snd (base_center ?i)) = - 40"
    by (simp_all add: c fl_minus fl_numerals)
  have m_west: "fl (min (Math_sqrt (fl (fl (- 40 * - 40) + fl (0 * 0)))) maxDistance / maxDistance)
      = fl (4 / 5)"
    by (simp only: minus_mult_minus magnitude_40_0)
  have m_north: "fl (min (Math_sqrt (fl (fl (0 * 0) + fl (- 40 * - 40)))) maxDistance / maxDistance)
      = fl (4 / 5)"
    by (simp only: minus_mult_minus magnitude_0_40)
  have d_east: "fl (Math_atan2 0 40 * fl (180 / Math_PI)) = 0"
    by (simp add: Math_atan2_east fl_zero)
  have "Math_atan2 40 0 = Math_PI / 2"
    by (rule Math_atan2_south) simp
  then have d_south: "fl (Math_atan2 40 0 * fl (180 / Math_PI)) = 90"
    by (simp only: degrees_90)
  have "Math_atan2 0 (- 40) = Math_PI"
    by (rule Math_atan2_west) simp
  then have d_west: "fl (Math_atan2 0 (- 40) * fl (180 / Math_PI)) = 180"
    by (simp only: degrees_180)
  have "Math_atan2 (- 40) 0 = - (Math_PI / 2)"
    by (rule Math_atan2_north) simp
  then have d_north: "fl (Math_atan2 (- 40) 0 * fl (180 / Math_PI)) = - 90"
    by (simp only: degrees_minus_90)
  have p_east: "client_pos (MouseEv 140 100) = Some (140, 100)"
    and p_south: "client_pos (MouseEv 100 140) = Some (100, 140)"
    and p_west: "client_pos (MouseEv 60 100) = Some (60, 100)"
    and p_north: "client_pos (TouchEv [(100, 60)]) = Some (100, 60)"
    by (simp_all add: client_pos_def)
  note east = press_requests [OF p_east x40 y0 magnitude_40_0 d_east]
    and south = press_requests [OF p_south x0 y40 magnitude_0_40 d_south]
    and west = press_requests [OF p_west xm40 y0 m_west d_west]
    and north = press_requests [OF p_north x0 ym40 m_north d_north]
  from east south west north show ?thesis
    unfolding sp speed_50_four_fifths by (simp add: direction_of_angleDeg_def)
qed

text \<open>
  The rounding of the doubles shows in the speed: with the slider at 25 and the offset
  \<open>(29, 0)\<close> the magnitude is the double nearest to \<open>0.58\<close>, its product with 25 is the
  double just below \<open>14.5\<close>, and the speed sent is 14; the exact product \<open>14.5\<close> would be
  rounded to 15.
\<close>

lemma speed_of_rounded_product:
  "requests (step (step (initial_state (100, 100) []) (SliderInput 25)) (PointerDown (MouseEv 129 100)))
     = [movement_request Right 14]
   \<and> round (real_of_int 25 * (29 / 50 :: real)) = 15"
proof -
  let ?i = "initial_state (100, 100) []"
  let ?s = "step ?i (SliderInput 25)"
  have s25: "?s = ?i\<lparr>slider_value := 25, speed_text := 25,
           currentMovement := \<lparr>angle = 0, distance = 0, speed = 25\<rparr>\<rparr>"
    by (simp add: step_def sliderInput_def initial_state_def Let_def)
  have sp: "speed (currentMovement ?s) = 25" "requests ?s = []"
    by (simp_all add: s25) (simp_all add: initial_state_def)
  have c: "fst (base_center ?s) = 100" "snd (base_center ?s) = 100"
    by (simp_all add: s25) (simp_all add: initial_state_def)
  have p: "client_pos (MouseEv 129 100) = Some (129, 100)"
    by (simp add: client_pos_def)
  have x: "fl (129 - fst (base_center ?s)) = 29"
    unfolding c using fl_of_int [of 29] by simp
  have y: "fl (100 - snd (base_center ?s)) = 0"
    unfolding c by (simp add: fl_zero)
  have d: "fl (Math_atan2 0 29 * fl (180 / Math_PI)) = 0"
    by (simp add: Math_atan2_east fl_zero)
  have "requests (step ?s (PointerDown (MouseEv 129 100))) = requests ?s @
     [movement_request (direction_of_angleDeg 0)
        (Math_round (fl (real_of_int (speed (currentMovement ?s)) * fl (29 / 50))))]"
    by (rule press_requests [OF p x y magnitude_29_0 d])
  then have "requests (step ?s (PointerDown (MouseEv 129 100))) = [movement_request Right 14]"
    unfolding sp speed_25_29_fiftieths by (simp add: direction_of_angleDeg_def)
  then show ?thesis
    using exact_speed_25_29_fiftieths by simp
qed

section \<open>Releasing the joystick\<close>

lemma removeAll_every_direction:
  "removeAll Stop (removeAll Backward (removeAll Right (removeAll Left (removeAll Forward ds)))) = []"
proof (induction ds)
  case Nil
  show ?case by simp
next
  case (Cons d ds)
  then show ?case by (cases d) simp_all
qed

lemma updateButtonState_all_present:
  assumes "set all_buttons \<subseteq> set (buttons s)"
  shows "updateButtonState d s = Normal (s\<lparr>lit := [d]\<rparr>)"
  using assms
  by (simp add: updateButtonState_def then_run_def all_buttons_def removeAll_every_direction)

lemma uncaught_frame:
  "currentMovement (uncaught r) = currentMovement (state_of r)"
  "isDragging (uncaught r) = isDragging (state_of r)"
  "window_currentMovement (uncaught r) = window_currentMovement (state_of r)"
  "requests (uncaught r) = requests (state_of r)"
  "timers (uncaught r) = timers (state_of r)"
  "buttons (uncaught r) = buttons (state_of r)"
  "lit (uncaught r) = lit (state_of r)"
  "now (uncaught r) = now (state_of r)"
  "slider_value (uncaught r) = slider_value (state_of r)"
  "dest_value (uncaught r) = dest_value (state_of r)"
  "dest_options (uncaught r) = dest_options (state_of r)"
  by (cases r; simp add: uncaught_def)+

lemma reset_buttons_frame:
  "currentMovement (state_of (reset_buttons bs s)) = currentMovement s
   \<and> isDragging (state_of (reset_buttons bs s)) = isDragging s
   \<and> window_currentMovement (state_of (reset_buttons bs s)) = window_currentMovement s
   \<and> requests (state_of (reset_buttons bs s)) = requests s
   \<and> timers (state_of (reset_buttons bs s)) = timers s
   \<and> buttons (state_of (reset_buttons bs s)) = buttons s
   \<and> now (state_of (reset_buttons bs s)) = now s
   \<and> slider_value (state_of (reset_buttons bs s)) = slider_value s
   \<and> dest_value (state_of (reset_buttons bs s)) = dest_value s
   \<and> dest_options (state_of (reset_buttons bs s)) = dest_options s"
  by (induction bs arbitrary: s) simp_all

lemma updateButtonState_frame:
  "currentMovement (state_of (updateButtonState d s)) = currentMovement s"
  "isDragging (state_of (updateButtonState d s)) = isDragging s"
  "window_currentMovement (state_of (updateButtonState d s)) = window_currentMovement s"
  "requests (state_of (updateButtonState d s)) = requests s"
  "timers (state_of (updateButtonState d s)) = timers s"
  "buttons (state_of (updateButtonState d s)) = buttons s"
  "now (state_of (updateButtonState d s)) = now s"
  "slider_value (state_of (updateButtonState d s)) = slider_value s"
  "dest_value (state_of (updateButtonState d s)) = dest_value s"
  "dest_options (state_of (updateButtonState d s)) = dest_options s"
  using reset_buttons_frame [of "[Forward, Left, Right, Backward, Stop]" s]
  by (cases "reset_buttons [Forward, Left, Right, Backward, Stop] s";
      simp add: updateButtonState_def then_run_def)+

lemma handleEnd_dragging:
  assumes "isDragging s"
  shows "currentMovement (state_of (handleEnd s))
           = \<lparr>angle = 0, distance = 0, speed = speed (currentMovement s)\<rparr>"
    and "\<not> isDragging (state_of (handleEnd s))"
    and "requests (state_of (handleEnd s)) = requests s @ [movement_request Stop 0]"
    and "buttons (state_of (handleEnd s)) = buttons s"
proof -
  let ?s2 = "sendMovementCommand Stop 0
     (s\<lparr>isDragging := False, handle_transition := ''transform 0.2s ease-out'',
        handle_translate := (0, 0), currentX := 0, currentY := 0,
        currentMovement := \<lparr>angle = 0, distance = 0, speed = speed (currentMovement s)\<rparr>\<rparr>)"
  have e: "handleEnd s = then_run (updateButtonState Stop ?s2)
             (\<lambda>s3. Normal (setTimeout ClearTransition 200 s3))"
    using assms by (simp add: handleEnd_def Let_def)
  have st: "state_of (handleEnd s) = (case updateButtonState Stop ?s2 of
        Normal s3 \<Rightarrow> setTimeout ClearTransition 200 s3 | Thrown x s3 \<Rightarrow> s3)"
    unfolding e by (cases "updateButtonState Stop ?s2") (simp_all add: then_run_def)
  show "currentMovement (state_of (handleEnd s))
           = \<lparr>angle = 0, distance = 0, speed = speed (currentMovement s)\<rparr>"
    using updateButtonState_frame(1) [of Stop ?s2]
    by (cases "updateButtonState Stop ?s2")
       (simp_all add: st setTimeout_def sendMovementCommand_frame)
  show "\<not> isDragging (state_of (handleEnd s))"
    using updateButtonState_frame(2) [of Stop ?s2]
    by (cases "updateButtonState Stop ?s2")
       (simp_all add: st setTimeout_def sendMovementCommand_frame)
  show "requests (state_of (handleEnd s)) = requests s @ [movement_request Stop 0]"
    using updateButtonState_frame(4) [of Stop ?s2]
    by (cases "updateButtonState Stop ?s2")
       (simp_all add: st setTimeout_def request_of_send)
  show "buttons (state_of (handleEnd s)) = buttons s"
    using updateButtonState_frame(6) [of Stop ?s2]
    by (cases "updateButtonState Stop ?s2")
       (simp_all add: st setTimeout_def sendMovementCommand_frame)
qed

lemma not_stop_request: "d \<noteq> Stop \<Longrightarrow> \<not> is_stop_request (movement_request d v)"
  by (cases d) (simp_all add: is_stop_request_def movement_request_def)

lemma stop_request: "is_stop_request (movement_request Stop v)"
  by (simp add: is_stop_request_def movement_request_def)

lemma move_while_dragging:
  assumes drag: "isDragging s"
  shows "isDragging (step s (PointerMove e))
     \<and> speed (currentMovement (step s (PointerMove e))) = speed (currentMovement s)
     \<and> filter is_stop_request (requests (step s (PointerMove e)))
         = filter is_stop_request (requests s)
     \<and> buttons (step s (PointerMove e)) = buttons s"
proof (cases "client_pos e")
  case None
  with drag show ?thesis
    by (simp add: step_def handleMove_def uncaught_def)
next
  case (Some p)
  then have pos: "client_pos e = Some (fst p, snd p)"
    by simp
  have u: "step s (PointerMove e) = uncaught (handleMove e s)"
    by (simp add: step_def)
  show ?thesis
    unfolding u
    by (simp add: handleMove_requests [OF drag pos refl refl refl refl]
        handleMove_movement [OF drag pos refl refl refl]
        not_stop_request direction_of_angleDeg_not_Stop)
       (simp add: handleMove_dragging [OF drag pos refl refl refl] uncaught_def
        updateMovement_frame drag)
qed

lemma moves_while_dragging:
  assumes "isDragging s"
  shows "isDragging (run (map PointerMove es) s)
     \<and> speed (currentMovement (run (map PointerMove es) s)) = speed (currentMovement s)
     \<and> filter is_stop_request (requests (run (map PointerMove es) s))
         = filter is_stop_request (requests s)
     \<and> buttons (run (map PointerMove es) s) = buttons s"
  using assms
proof (induction es arbitrary: s)
  case Nil
  then show ?case by (simp add: run_def)
next
  case (Cons e es)
  from move_while_dragging [OF Cons.prems, of e]
  have drag': "isDragging (step s (PointerMove e))"
    and keep: "speed (currentMovement (step s (PointerMove e))) = speed (currentMovement s)"
      "filter is_stop_request (requests (step s (PointerMove e)))
         = filter is_stop_request (requests s)"
      "buttons (step s (PointerMove e)) = buttons s"
    by simp_all
  have "run (map PointerMove (e # es)) s = run (map PointerMove es) (step s (PointerMove e))"
    by (simp add: run_def)
  with Cons.IH [OF drag'] keep show ?case by simp
qed

text \<open>
  C6. Releasing the joystick while a drag is active, after any number of moves: angle and
  magnitude are 0 and the speed is the one before the moves; exactly one request is sent by
  the release, stop with speed 0, and it is the only stop request since the drag began; the
  stop button is the one highlighted when the page has the five buttons.
\<close>

theorem release_resets_and_stops_once:
  assumes "isDragging s"
  shows "currentMovement (step (run (map PointerMove es) s) PointerUp)
           = \<lparr>angle = 0, distance = 0, speed = speed (currentMovement s)\<rparr>
       \<and> \<not> isDragging (step (run (map PointerMove es) s) PointerUp)
       \<and> requests (step (run (map PointerMove es) s) PointerUp)
           = requests (run (map PointerMove es) s) @ [movement_request Stop 0]
       \<and> filter is_stop_request (requests (step (run (map PointerMove es) s) PointerUp))
           = filter is_stop_request (requests s) @ [movement_request Stop 0]
       \<and> (set all_buttons \<subseteq> set (buttons s)
            \<longrightarrow> lit (step (run (map PointerMove es) s) PointerUp) = [Stop])"
proof -
  let ?s1 = "run (map PointerMove es) s"
  from moves_while_dragging [OF assms, of es]
  have drag: "isDragging ?s1"
    and keep: "speed (currentMovement ?s1) = speed (currentMovement s)"
      "filter is_stop_request (requests ?s1) = filter is_stop_request (requests s)"
      "buttons ?s1 = buttons s"
    by simp_all
  have u: "step ?s1 PointerUp = uncaught (handleEnd ?s1)"
    by (simp add: step_def)
  have lit: "lit (uncaught (handleEnd ?s1)) = [Stop]" if "set all_buttons \<subseteq> set (buttons s)"
    using that drag keep(3)
    by (simp add: handleEnd_def Let_def updateButtonState_all_present sendMovementCommand_frame
        then_run_def uncaught_def setTimeout_def)
  show ?thesis
    unfolding u
    using lit
    by (simp add: uncaught_frame handleEnd_dragging [OF drag] keep stop_request)
qed

lemma press_starts_drag:
  "isDragging (step s (PointerDown e))
     \<and> speed (currentMovement (step s (PointerDown e))) = speed (currentMovement s)
     \<and> filter is_stop_request (requests (step s (PointerDown e)))
         = filter is_stop_request (requests s)
     \<and> buttons (step s (PointerDown e)) = buttons s"
proof -
  let ?s0 = "s\<lparr>isDragging := True, startX := fst (base_center s), startY := snd (base_center s)\<rparr>"
  have "step s (PointerDown e) = step ?s0 (PointerMove e)"
    by (simp add: step_def handleStart_def)
  moreover have "isDragging ?s0" by simp
  ultimately show ?thesis
    using move_while_dragging [of ?s0 e] by simp
qed

theorem release_resets_and_stops_once_witness:
  "currentMovement (run [PointerDown (MouseEv 140 100), PointerMove (MouseEv 100 60),
       PointerMove (TouchEv []), PointerMove (MouseEv 180 20), PointerUp]
       (initial_state (100, 100) all_buttons))
     = \<lparr>angle = 0, distance = 0, speed = 50\<rparr>
   \<and> filter is_stop_request (requests (run [PointerDown (MouseEv 140 100),
       PointerMove (MouseEv 100 60), PointerMove (TouchEv []), PointerMove (MouseEv 180 20),
       PointerUp] (initial_state (100, 100) all_buttons)))
     = [movement_request Stop 0]
   \<and> lit (run [PointerDown (MouseEv 140 100), PointerMove (MouseEv 100 60),
       PointerMove (TouchEv []), PointerMove (MouseEv 180 20), PointerUp]
       (initial_state (100, 100) all_buttons)) = [Stop]"
proof -
  let ?i = "initial_state (100, 100) all_buttons"
  let ?s = "step ?i (PointerDown (MouseEv 140 100))"
  let ?es = "[MouseEv 100 60, TouchEv [], MouseEv 180 20]"
  from press_starts_drag [of ?i "MouseEv 140 100"]
  have drag: "isDragging ?s"
    and sp: "speed (currentMovement ?s) = 50"
    and rq: "filter is_stop_request (requests ?s) = []"
    and bt: "set all_buttons \<subseteq> set (buttons ?s)"
    by (simp_all add: initial_state_def)
  have run: "run [PointerDown (MouseEv 140 100), PointerMove (MouseEv 100 60),
       PointerMove (TouchEv []), PointerMove (MouseEv 180 20), PointerUp] ?i
     = step (run (map PointerMove ?es) ?s) PointerUp"
    by (simp add: run_def)
  from release_resets_and_stops_once [OF drag, of ?es]
  have "currentMovement (step (run (map PointerMove ?es) ?s) PointerUp)
           = \<lparr>angle = 0, distance = 0, speed = speed (currentMovement ?s)\<rparr>"
    and "filter is_stop_request (requests (step (run (map PointerMove ?es) ?s) PointerUp))
           = filter is_stop_request (requests ?s) @ [movement_request Stop 0]"
    and "set all_buttons \<subseteq> set (buttons ?s)
            \<longrightarrow> lit (step (run (map PointerMove ?es) ?s) PointerUp) = [Stop]"
    by blast+
  with sp rq bt show ?thesis unfolding run by simp
qed



section \<open>The keyboard\<close>

lemma setMovement_effect:
  "requests (state_of (setMovement d s)) = requests s @ [movement_request d (slider_value s)]"
  "window_currentMovement (state_of (setMovement d s))
     = Some \<lparr>g_angle = (if d = Stop then Some 0 else None),
             g_distance = (if d = Stop then Some 0 else None),
             g_direction = d, g_speed = slider_value s\<rparr>"
  "slider_value (state_of (setMovement d s)) = slider_value s"
  "buttons (state_of (setMovement d s)) = buttons s"
  "currentMovement (state_of (setMovement d s)) = currentMovement s"
  "isDragging (state_of (setMovement d s)) = isDragging s"
  "timers (state_of (setMovement d s)) = timers s"
  "now (state_of (setMovement d s)) = now s"
  by (simp_all add: setMovement_def Let_def updateButtonState_frame request_of_send
      sendMovementCommand_frame)

lemma keydown_effect:
  assumes "\<not> in_input_field ev" and "key_direction (ev_key ev) = Some d"
  shows "requests (step s (KeyDown ev)) = requests s @ [movement_request d (slider_value s)]"
    and "window_currentMovement (step s (KeyDown ev))
     = Some \<lparr>g_angle = (if d = Stop then Some 0 else None),
             g_distance = (if d = Stop then Some 0 else None),
             g_direction = d, g_speed = slider_value s\<rparr>"
    and "slider_value (step s (KeyDown ev)) = slider_value s"
  using assms
  by (simp_all add: step_def handleKeyDown_def uncaught_frame setMovement_effect)

lemma keyup_effect:
  assumes "\<not> in_input_field ev" and "ev_key ev \<in> set arrow_keys"
  shows "requests (step s (KeyUp ev)) = requests s @ [movement_request Stop (slider_value s)]"
    and "window_currentMovement (step s (KeyUp ev))
     = Some \<lparr>g_angle = Some 0, g_distance = Some 0,
             g_direction = Stop, g_speed = slider_value s\<rparr>"
    and "slider_value (step s (KeyUp ev)) = slider_value s"
  using assms
  by (simp_all add: step_def handleKeyUp_def uncaught_frame setMovement_effect)

lemma arrow_key_direction:
  assumes "k \<in> set arrow_keys"
  shows "\<exists>d. key_direction k = Some d \<and> d \<noteq> Stop"
  using assms by (auto simp add: arrow_keys_def key_direction_def)

text \<open>
  C2, as stated, expects the second key's direction to survive the release of the first.
  With the up arrow pressed, then the right arrow, then the up arrow released, the direction
  stored is stop and the last of the three commands sent is stop.
\<close>

theorem stale_keyup_stops_second_key:
  "map_option g_direction (window_currentMovement
      (run [KeyDown \<lparr>ev_key = ''ArrowUp'', ev_target = ''BODY''\<rparr>,
            KeyDown \<lparr>ev_key = ''ArrowRight'', ev_target = ''BODY''\<rparr>,
            KeyUp \<lparr>ev_key = ''ArrowUp'', ev_target = ''BODY''\<rparr>]
         (initial_state (100, 100) all_buttons))) = Some Stop
   \<and> requests
      (run [KeyDown \<lparr>ev_key = ''ArrowUp'', ev_target = ''BODY''\<rparr>,
            KeyDown \<lparr>ev_key = ''ArrowRight'', ev_target = ''BODY''\<rparr>,
            KeyUp \<lparr>ev_key = ''ArrowUp'', ev_target = ''BODY''\<rparr>]
         (initial_state (100, 100) all_buttons))
     = [movement_request Forward 50, movement_request Right 50, movement_request Stop 50]"
proof -
  let ?up = "\<lparr>ev_key = ''ArrowUp'', ev_target = ''BODY''\<rparr>"
  let ?right = "\<lparr>ev_key = ''ArrowRight'', ev_target = ''BODY''\<rparr>"
  have f: "\<not> in_input_field ?up" "\<not> in_input_field ?right"
    by (simp_all add: in_input_field_def)
  have k: "key_direction (ev_key ?up) = Some Forward" "key_direction (ev_key ?right) = Some Right"
    "ev_key ?up \<in> set arrow_keys"
    by (simp_all add: key_direction_def arrow_keys_def)
  have i: "slider_value (initial_state (100, 100) all_buttons) = 50"
    "requests (initial_state (100, 100) all_buttons) = []"
    by (simp_all add: initial_state_def)
  show ?thesis
    by (simp add: run_def keydown_effect [OF f(1) k(1)] keydown_effect [OF f(2) k(2)]
        keyup_effect [OF f(1) k(3)] i)
qed

text \<open>
  C2, amended. Outside input fields, after a first arrow key is pressed and then a second,
  the second key's direction is the active one; when the first key is then released the
  direction becomes stop and a stop command is sent. \<^verbatim>\<open>handleKeyUp\<close> keeps no held key: the
  release of any arrow key stops.
\<close>

theorem keyup_of_first_key_stops:
  assumes "\<not> in_input_field ev1" and "\<not> in_input_field ev2"
    and "ev_key ev1 \<in> set arrow_keys" and "ev_key ev2 \<in> set arrow_keys"
  shows "\<exists>d1 d2. key_direction (ev_key ev1) = Some d1 \<and> key_direction (ev_key ev2) = Some d2
     \<and> d1 \<noteq> Stop \<and> d2 \<noteq> Stop
     \<and> map_option g_direction (window_currentMovement (run [KeyDown ev1, KeyDown ev2] s)) = Some d2
     \<and> map_option g_direction
          (window_currentMovement (run [KeyDown ev1, KeyDown ev2, KeyUp ev1] s)) = Some Stop
     \<and> requests (run [KeyDown ev1, KeyDown ev2, KeyUp ev1] s)
         = requests s @ [movement_request d1 (slider_value s), movement_request d2 (slider_value s),
                         movement_request Stop (slider_value s)]"
proof -
  from arrow_key_direction [OF assms(3)] obtain d1
    where d1: "key_direction (ev_key ev1) = Some d1" "d1 \<noteq> Stop" by blast
  from arrow_key_direction [OF assms(4)] obtain d2
    where d2: "key_direction (ev_key ev2) = Some d2" "d2 \<noteq> Stop" by blast
  show ?thesis
    apply (rule exI [of _ d1], rule exI [of _ d2])
    apply (simp add: d1 d2 run_def keydown_effect [OF assms(1) d1(1)]
        keydown_effect [OF assms(2) d2(1)] keyup_effect [OF assms(1) assms(3)])
    done
qed

theorem keyup_of_first_key_stops_witness:
  "map_option g_direction (window_currentMovement
      (run [KeyDown \<lparr>ev_key = ''ArrowLeft'', ev_target = ''DIV''\<rparr>,
            KeyDown \<lparr>ev_key = ''ArrowDown'', ev_target = ''DIV''\<rparr>]
         (initial_state (0, 0) []))) = Some Backward
   \<and> map_option g_direction (window_currentMovement
      (run [KeyDown \<lparr>ev_key = ''ArrowLeft'', ev_target = ''DIV''\<rparr>,
            KeyDown \<lparr>ev_key = ''ArrowDown'', ev_target = ''DIV''\<rparr>,
            KeyUp \<lparr>ev_key = ''ArrowLeft'', ev_target = ''DIV''\<rparr>]
         (initial_state (0, 0) []))) = Some Stop"
proof -
  let ?l = "\<lparr>ev_key = ''ArrowLeft'', ev_target = ''DIV''\<rparr>"
  let ?d = "\<lparr>ev_key = ''ArrowDown'', ev_target = ''DIV''\<rparr>"
  have f: "\<not> in_input_field ?l" "\<not> in_input_field ?d"
    by (simp_all add: in_input_field_def)
  have a: "ev_key ?l \<in> set arrow_keys" "ev_key ?d \<in> set arrow_keys"
    by (simp_all add: arrow_keys_def)
  have k: "key_direction (ev_key ?d) = Some Backward"
    by (simp add: key_direction_def)
  from keyup_of_first_key_stops [OF f a, of "initial_state (0, 0) []"] k
  show ?thesis by auto
qed

section \<open>Key repeat\<close>

lemma repeated_keydown:
  assumes "\<not> in_input_field ev" and "key_direction (ev_key ev) = Some d"
  shows "requests (run (replicate n (KeyDown ev)) s)
           = requests s @ replicate n (movement_request d (slider_value s))
       \<and> slider_value (run (replicate n (KeyDown ev)) s) = slider_value s
       \<and> (0 < n \<longrightarrow> window_currentMovement (run (replicate n (KeyDown ev)) s)
             = window_currentMovement (step s (KeyDown ev)))"
proof (induction n arbitrary: s)
  case 0
  show ?case by (simp add: run_def)
next
  case (Suc n)
  have unfold: "run (replicate (Suc n) (KeyDown ev)) s
      = run (replicate n (KeyDown ev)) (step s (KeyDown ev))"
    by (simp add: run_def)
  note one = keydown_effect [OF assms, of s]
  note again = keydown_effect [OF assms, of "step s (KeyDown ev)"]
  from Suc.IH [of "step s (KeyDown ev)"] show ?case
    unfolding unfold
    by (cases n) (simp_all add: one again run_def replicate_append_same)
qed

text \<open>
  C3, amended. Outside input fields, each key-down event of an arrow key sends one movement
  command, so \<open>n\<close> events of a held key send \<open>n\<close> commands, all with the key's direction and
  the speed of the slider; only the stored movement is idempotent: after the repeats it is
  what it was after the first event.
\<close>

theorem repeated_keydown_resends:
  assumes "\<not> in_input_field ev" and "ev_key ev \<in> set arrow_keys"
  shows "\<exists>d. key_direction (ev_key ev) = Some d \<and> d \<noteq> Stop
     \<and> requests (run (replicate n (KeyDown ev)) s)
           = requests s @ replicate n (movement_request d (slider_value s))
     \<and> (0 < n \<longrightarrow> window_currentMovement (run (replicate n (KeyDown ev)) s)
             = window_currentMovement (step s (KeyDown ev)))"
proof -
  from arrow_key_direction [OF assms(2)] obtain d
    where d: "key_direction (ev_key ev) = Some d" "d \<noteq> Stop" by blast
  from repeated_keydown [OF assms(1) d(1), of n s] d show ?thesis by blast
qed

text \<open>
  C3, as stated, expects one command for a held key. Two key-down events of the up arrow
  send two forward commands.
\<close>

theorem key_repeat_sends_duplicates:
  "requests (run [KeyDown \<lparr>ev_key = ''ArrowUp'', ev_target = ''BODY''\<rparr>,
                  KeyDown \<lparr>ev_key = ''ArrowUp'', ev_target = ''BODY''\<rparr>]
         (initial_state (100, 100) all_buttons))
     = [movement_request Forward 50, movement_request Forward 50]"
proof -
  let ?up = "\<lparr>ev_key = ''ArrowUp'', ev_target = ''BODY''\<rparr>"
  have f: "\<not> in_input_field ?up"
    by (simp add: in_input_field_def)
  have k: "key_direction (ev_key ?up) = Some Forward"
    by (simp add: key_direction_def)
  show ?thesis
    by (simp add: run_def keydown_effect [OF f k] initial_state_def)
qed

theorem repeated_keydown_resends_witness:
  "requests (run (replicate 3 (KeyDown \<lparr>ev_key = ''ArrowRight'', ev_target = ''BODY''\<rparr>))
         (initial_state (100, 100) []))
     = [movement_request Right 50, movement_request Right 50, movement_request Right 50]
   \<and> window_currentMovement
        (run (replicate 3 (KeyDown \<lparr>ev_key = ''ArrowRight'', ev_target = ''BODY''\<rparr>))
           (initial_state (100, 100) []))
     = Some \<lparr>g_angle = None, g_distance = None, g_direction = Right, g_speed = 50\<rparr>"
proof -
  let ?r = "\<lparr>ev_key = ''ArrowRight'', ev_target = ''BODY''\<rparr>"
  have f: "\<not> in_input_field ?r"
    by (simp add: in_input_field_def)
  have a: "ev_key ?r \<in> set arrow_keys"
    by (simp add: arrow_keys_def)
  have k: "key_direction (ev_key ?r) = Some Right"
    by (simp add: key_direction_def)
  have i: "slider_value (initial_state (100, 100) []) = 50"
    "requests (initial_state (100, 100) []) = []"
    by (simp_all add: initial_state_def)
  from repeated_keydown_resends [OF f a, of 3 "initial_state (100, 100) []"] k
  show ?thesis
    by (auto simp add: i keydown_effect [OF f k] numeral_3_eq_3)
qed



section \<open>Failures of the transport\<close>

lemma callApi_settle_cases:
  "callApi_settle (Rejected m) s = (Inr (Some (failure_envelope m)), log (ErrApiCall m) s)"
  "callApi_settle (Responded False st b) s
     = (Inr (Some (failure_envelope (''API call failed: '' @ string_of_nat st))),
        log (ErrApiCall (''API call failed: '' @ string_of_nat st)) s)"
  "callApi_settle (Responded True st (BadJson m)) s
     = (Inr (Some (failure_envelope m)), log (ErrApiCall m) s)"
  "callApi_settle (Responded True st JsonNull) s = (Inr None, s)"
  "callApi_settle (Responded True st (Json r)) s = (Inr (Some r), s)"
  by (simp_all add: callApi_settle_def callApi_try_def)

lemma callApi_never_rejects: "\<exists>v. fst (callApi_settle fo s) = Inr v"
  by (cases "callApi_try fo") (simp_all add: callApi_settle_def)

text \<open>
  C9. The promise of \<^verbatim>\<open>callApi\<close> never rejects, whatever the endpoint: when \<^verbatim>\<open>fetch\<close>
  rejects, when the status is not ok, or when the body is not JSON, it resolves with
  \<^verbatim>\<open>{success: false, error: message}\<close>. When the reply to a movement command arrives,
  \<^verbatim>\<open>sendMovementCommand\<close> writes to the console and to nothing else: the stored movement and
  the highlighted button are not reverted and no request is sent again; a failure is logged
  as an error, as for a left command that fails with ``timeout''.
\<close>

theorem transport_failure_is_a_value:
  "(\<exists>v. fst (callApi_settle fo s) = Inr v)
   \<and> fst (callApi_settle (Rejected m) s) = Inr (Some \<lparr>success = False, err = Some m, reply = None\<rparr>)
   \<and> fst (callApi_settle (Responded False st b) s)
       = Inr (Some \<lparr>success = False, err = Some (''API call failed: '' @ string_of_nat st),
                    reply = None\<rparr>)
   \<and> fst (callApi_settle (Responded True st (BadJson m)) s)
       = Inr (Some \<lparr>success = False, err = Some m, reply = None\<rparr>)
   \<and> sendMovementCommand_settle (Rejected m) s
       = s\<lparr>console := console s @ [ErrApiCall m, ErrMovementFailed (Some m)]\<rparr>
   \<and> sendMovementCommand_settle (Responded False st b) s
       = s\<lparr>console := console s @
            [ErrApiCall (''API call failed: '' @ string_of_nat st),
             ErrMovementFailed (Some (''API call failed: '' @ string_of_nat st))]\<rparr>
   \<and> sendMovementCommand_settle (Responded True st (BadJson m)) s
       = s\<lparr>console := console s @ [ErrApiCall m, ErrMovementFailed (Some m)]\<rparr>
   \<and> sendMovementCommand_settle (Responded True st (Json r)) s
       = s\<lparr>console := console s @
            [if success r then LogMovementSent else ErrMovementFailed (err r)]\<rparr>
   \<and> (\<exists>entries. sendMovementCommand_settle fo s = s\<lparr>console := console s @ entries\<rparr>)"
proof -
  have frame: "\<exists>entries. sendMovementCommand_settle fo s = s\<lparr>console := console s @ entries\<rparr>"
  proof (cases "callApi_try fo")
    case (Inl m)
    then show ?thesis
      by (intro exI [of _ "[ErrApiCall m, ErrMovementFailed (Some m)]"])
         (simp add: sendMovementCommand_settle_def callApi_settle_def failure_envelope_def log_def)
  next
    case (Inr v)
    show ?thesis
    proof (cases v)
      case None
      with Inr show ?thesis
        by (intro exI [of _ "[ErrMovementError ''TypeError'']"])
           (simp add: sendMovementCommand_settle_def callApi_settle_def log_def)
    next
      case (Some r)
      with Inr show ?thesis
        by (intro exI [of _ "[if success r then LogMovementSent else ErrMovementFailed (err r)]"])
           (simp add: sendMovementCommand_settle_def callApi_settle_def log_def)
    qed
  qed
  show ?thesis
    using frame callApi_never_rejects [of fo s]
    by (simp add: callApi_settle_cases sendMovementCommand_settle_def failure_envelope_def log_def)
qed

theorem transport_failure_is_a_value_witness:
  "map_option g_direction (window_currentMovement
      (sendMovementCommand_settle (Rejected ''timeout'')
         (step (initial_state (100, 100) all_buttons)
            (KeyDown \<lparr>ev_key = ''ArrowLeft'', ev_target = ''BODY''\<rparr>)))) = Some Left
   \<and> requests
      (sendMovementCommand_settle (Rejected ''timeout'')
         (step (initial_state (100, 100) all_buttons)
            (KeyDown \<lparr>ev_key = ''ArrowLeft'', ev_target = ''BODY''\<rparr>)))
      = [movement_request Left 50]
   \<and> console
      (sendMovementCommand_settle (Rejected ''timeout'')
         (step (initial_state (100, 100) all_buttons)
            (KeyDown \<lparr>ev_key = ''ArrowLeft'', ev_target = ''BODY''\<rparr>)))
      = [LogSending Left 50, ErrApiCall ''timeout'', ErrMovementFailed (Some ''timeout'')]
   \<and> fst (callApi_settle (Rejected ''timeout'') (initial_state (100, 100) all_buttons))
      = Inr (Some \<lparr>success = False, err = Some ''timeout'', reply = None\<rparr>)"
proof -
  let ?l = "\<lparr>ev_key = ''ArrowLeft'', ev_target = ''BODY''\<rparr>"
  let ?s = "step (initial_state (100, 100) all_buttons) (KeyDown ?l)"
  have f: "\<not> in_input_field ?l"
    by (simp add: in_input_field_def)
  have k: "key_direction (ev_key ?l) = Some Left"
    by (simp add: key_direction_def)
  have c: "console ?s = [LogSending Left 50]"
    by (simp add: step_def handleKeyDown_def in_input_field_def key_direction_def
        setMovement_def Let_def updateButtonState_def then_run_def sendMovementCommand_def
        callApi_send_def log_def uncaught_def initial_state_def all_buttons_def)
  from transport_failure_is_a_value [of "Rejected ''timeout''" ?s "''timeout''"]
  have settle: "sendMovementCommand_settle (Rejected ''timeout'') ?s
       = ?s\<lparr>console := console ?s @ [ErrApiCall ''timeout'', ErrMovementFailed (Some ''timeout'')]\<rparr>"
    by blast
  from transport_failure_is_a_value
    [of "Rejected ''timeout''" "initial_state (100, 100) all_buttons" "''timeout''"]
  have envelope: "fst (callApi_settle (Rejected ''timeout'') (initial_state (100, 100) all_buttons))
      = Inr (Some \<lparr>success = False, err = Some ''timeout'', reply = None\<rparr>)"
    by blast
  show ?thesis
    unfolding settle
    by (simp add: envelope c keydown_effect [OF f k]) (simp add: initial_state_def)
qed



section \<open>What the handlers leave alone\<close>

lemma keeps_refl: "keeps s s"
  by (simp add: keeps_def)

lemma keeps_trans: "keeps s s' \<Longrightarrow> keeps s' s'' \<Longrightarrow> keeps s s''"
  by (auto simp add: keeps_def)

lemma keeps_uncaught: "keeps s (state_of r) \<Longrightarrow> keeps s (uncaught r)"
  by (cases r) (simp_all add: keeps_def uncaught_def)

lemma keeps_send: "keeps s (sendMovementCommand d v s)"
  by (simp add: keeps_def sendMovementCommand_frame)

lemma keeps_updateMovement: "keeps s (updateMovement s)"
  by (simp add: updateMovement_def Let_def keeps_send)

lemma keeps_updateButtonState: "keeps s (state_of (updateButtonState d s))"
  by (simp add: keeps_def updateButtonState_frame)

lemma keeps_setMovement: "keeps s (state_of (setMovement d s))"
  by (simp add: keeps_def setMovement_effect)

lemma keeps_handleMove: "keeps s (state_of (handleMove e s))"
proof (cases "isDragging s")
  case False
  then show ?thesis by (simp add: handleMove_def keeps_refl)
next
  case True
  show ?thesis
  proof (cases "client_pos e")
    case None
    with True show ?thesis by (simp add: handleMove_def keeps_def)
  next
    case (Some p)
    then have pos: "client_pos e = Some (fst p, snd p)"
      by simp
    show ?thesis
      by (simp add: handleMove_dragging [OF True pos refl refl refl] keeps_def
          updateMovement_frame updateMovement_def Let_def sendMovementCommand_frame)
  qed
qed

lemma keeps_handleStart: "keeps s (state_of (handleStart e s))"
proof -
  let ?s0 = "s\<lparr>isDragging := True, startX := fst (base_center s), startY := snd (base_center s)\<rparr>"
  have "keeps s ?s0" by (simp add: keeps_def)
  moreover have "keeps ?s0 (state_of (handleMove e ?s0))" by (rule keeps_handleMove)
  ultimately show ?thesis
    unfolding handleStart_def by (rule keeps_trans)
qed

lemma keeps_handleEnd: "keeps s (state_of (handleEnd s))"
proof (cases "isDragging s")
  case False
  then show ?thesis by (simp add: handleEnd_def keeps_refl)
next
  case True
  let ?s2 = "sendMovementCommand Stop 0
     (s\<lparr>isDragging := False, handle_transition := ''transform 0.2s ease-out'',
        handle_translate := (0, 0), currentX := 0, currentY := 0,
        currentMovement := \<lparr>angle = 0, distance = 0, speed = speed (currentMovement s)\<rparr>\<rparr>)"
  have k2: "keeps s ?s2"
    by (simp add: keeps_def sendMovementCommand_frame)
  have k3: "keeps ?s2 (state_of (updateButtonState Stop ?s2))"
    by (rule keeps_updateButtonState)
  have "keeps (state_of (updateButtonState Stop ?s2)) (state_of (handleEnd s))"
    using True
    by (cases "updateButtonState Stop ?s2")
       (simp_all add: handleEnd_def Let_def then_run_def keeps_def setTimeout_def)
  with k2 k3 show ?thesis by (blast intro: keeps_trans)
qed


lemma keeps_sliderInput: "keeps s (sliderInput v s)"
  by (simp add: sliderInput_def Let_def keeps_def updateMovement_frame updateMovement_def
      sendMovementCommand_frame)

lemma keeps_handleKeyDown: "keeps s (state_of (handleKeyDown ev s))"
  by (cases "key_direction (ev_key ev)")
     (simp_all add: handleKeyDown_def keeps_refl keeps_setMovement)

lemma keeps_handleKeyUp: "keeps s (state_of (handleKeyUp ev s))"
  by (simp add: handleKeyUp_def keeps_refl keeps_setMovement)

lemma keeps_click_button: "keeps s (state_of (click_button d s))"
  by (simp add: click_button_def keeps_refl)

lemma keeps_setTimeout: "keeps s (setTimeout cb ms s)"
  by (simp add: keeps_def setTimeout_def)

lemma keeps_click_then_timer:
  "keeps s (state_of (then_run (click_button d s) (\<lambda>s'. Normal (setTimeout cb ms s'))))"
proof (cases "click_button d s")
  case (Normal s')
  with keeps_click_button [of s d] have "keeps s s'" by simp
  with Normal show ?thesis
    by (simp add: then_run_def) (blast intro: keeps_trans keeps_setTimeout)
next
  case (Thrown e s')
  with keeps_click_button [of s d] show ?thesis by (simp add: then_run_def)
qed

lemma keeps_startNavigation: "keeps s (startNavigation s)"
  by (simp add: startNavigation_def Let_def keeps_def log_def callApi_send_def)

lemma keeps_set_dest_value: "keeps s (set_dest_value v s)"
  by (simp add: set_dest_value_def keeps_def)

lemma keeps_if:
  "keeps s (state_of x) \<Longrightarrow> keeps s (state_of y) \<Longrightarrow> keeps s (state_of (if b then x else y))"
  by simp

lemma keeps_place:
  "keeps s (if a then set_dest_value u s else if b then set_dest_value v s
            else if c then set_dest_value w s else s)"
  by (simp add: keeps_set_dest_value keeps_refl)

lemma keeps_navigation:
  assumes "keeps s s1"
  shows "keeps s (state_of (if dest_value s1 \<noteq> [] then Normal (click_navigate s1) else Normal s1))"
proof (cases "dest_value s1 \<noteq> []")
  case True
  have "keeps s1 (click_navigate s1)"
    by (simp add: click_navigate_def keeps_startNavigation)
  with assms True show ?thesis by (auto intro: keeps_trans)
next
  case False
  with assms show ?thesis by simp
qed

lemma keeps_click_start_mapping: "keeps s (state_of (Normal (click_start_mapping s)))"
  by (simp add: click_start_mapping_def toggleMapping_def uncaught_def keeps_def)

lemma keeps_click_save_map: "keeps s (state_of (Normal (click_save_map s)))"
  by (simp add: click_save_map_def saveMap_def callApi_send_def log_def keeps_def)

lemma keeps_click_load_map: "keeps s (state_of (Normal (click_load_map s)))"
  by (simp add: click_load_map_def loadMap_def callApi_send_def log_def keeps_def)

lemma keeps_executeVoiceCommand: "keeps s (state_of (executeVoiceCommand c s))"
  unfolding executeVoiceCommand_def Let_def
  by (intro keeps_if keeps_click_then_timer keeps_click_button keeps_navigation keeps_place
      keeps_click_start_mapping keeps_click_save_map keeps_click_load_map)
     (simp add: keeps_refl)

lemma keeps_run_voice_command: "keeps s (run_voice_command c s)"
proof (cases "executeVoiceCommand c s")
  case (Normal s')
  with keeps_executeVoiceCommand [of s c] show ?thesis
    by (simp add: run_voice_command_def)
next
  case (Thrown e s')
  with keeps_executeVoiceCommand [of s c] show ?thesis
    by (simp add: run_voice_command_def keeps_def displayAIResponse_def log_def)
qed

lemma keeps_step:
  assumes "\<And>ms. ev \<noteq> Elapse ms"
  shows "keeps s (step s ev)"
proof (cases ev)
  case (Elapse ms)
  with assms show ?thesis by blast
qed (simp_all add: step_def keeps_uncaught keeps_handleStart keeps_handleMove keeps_handleEnd
      keeps_sliderInput keeps_handleKeyDown keeps_handleKeyUp keeps_run_voice_command)

section \<open>Timers\<close>

text \<open>The callbacks of the timers send nothing and schedule nothing.\<close>

lemma run_callback_frame:
  "buttons (run_callback cb s) = buttons s \<and> timers (run_callback cb s) = timers s
   \<and> now (run_callback cb s) = now s \<and> requests (run_callback cb s) = requests s"
proof (cases cb)
  case ClearTransition
  then show ?thesis by (simp add: run_callback_def)
next
  case ClickStopBtn
  then show ?thesis
    by (simp add: run_callback_def click_button_def uncaught_def)
next
  case (DisplayReply r)
  then show ?thesis
    by (cases r) (simp_all add: run_callback_def uncaught_def displayAIResponse_def log_def)
qed

lemma foldl_callbacks:
  "buttons (foldl (\<lambda>s' (t', cb). run_callback cb (s'\<lparr>now := max (now s') t'\<rparr>)) s ts) = buttons s
   \<and> timers (foldl (\<lambda>s' (t', cb). run_callback cb (s'\<lparr>now := max (now s') t'\<rparr>)) s ts) = timers s
   \<and> requests (foldl (\<lambda>s' (t', cb). run_callback cb (s'\<lparr>now := max (now s') t'\<rparr>)) s ts)
       = requests s"
proof (induction ts arbitrary: s)
  case Nil
  show ?case by simp
next
  case (Cons x ts)
  obtain t' cb where x: "x = (t', cb)" by (cases x)
  let ?s1 = "run_callback cb (s\<lparr>now := max (now s) t'\<rparr>)"
  from run_callback_frame [of cb "s\<lparr>now := max (now s) t'\<rparr>"]
  have f1: "buttons ?s1 = buttons s" "timers ?s1 = timers s" "requests ?s1 = requests s"
    by simp_all
  from Cons.IH [of ?s1] f1 show ?case
    by (simp add: x)
qed

lemma elapse_frame:
  "timers (elapse t s) = filter (\<lambda>(t', cb). t < t') (timers s)"
  "now (elapse t s) = max (now s) t"
  "buttons (elapse t s) = buttons s"
  "requests (elapse t s) = requests s"
  using foldl_callbacks
    [of "s\<lparr>timers := filter (\<lambda>(t', cb). t < t') (timers s)\<rparr>"
        "sort_key fst (filter (\<lambda>(t', cb). t' \<le> t) (timers s))"]
  by (simp_all add: elapse_def Let_def)

section \<open>The automatic stop of a voice command\<close>

text \<open>
  No handler cancels a timer: whatever happens before its time, a timer that is scheduled
  stays scheduled.
\<close>

lemma duration_Cons: "duration (ev # evs) = duration [ev] + duration evs"
  by (cases ev) simp_all

lemma step_timer_survives:
  assumes "x \<in> set (timers s)" and "now s + duration [ev] < fst x"
  shows "x \<in> set (timers (step s ev)) \<and> now (step s ev) = now s + duration [ev]
       \<and> buttons (step s ev) = buttons s"
proof (cases "\<exists>ms. ev = Elapse ms")
  case True
  then obtain ms where ev: "ev = Elapse ms" by blast
  obtain t0 cb where x: "x = (t0, cb)" by (cases x)
  from assms(2) have "now s + ms < t0" by (simp add: ev x)
  with assms(1) have "(t0, cb) \<in> set (filter (\<lambda>(t', cb). now s + ms < t') (timers s))"
    by (simp add: x)
  then show ?thesis
    by (simp add: ev x step_def elapse_frame)
next
  case False
  then have k: "keeps s (step s ev)" by (intro keeps_step) blast
  from False have "duration [ev] = 0" by (cases ev) simp_all
  with k assms(1) show ?thesis by (auto simp add: keeps_def)
qed

lemma run_timer_survives:
  assumes "x \<in> set (timers s)" and "now s + duration evs < fst x"
  shows "x \<in> set (timers (run evs s)) \<and> now (run evs s) = now s + duration evs
       \<and> buttons (run evs s) = buttons s"
  using assms
proof (induction evs arbitrary: s)
  case Nil
  then show ?case by (simp add: run_def)
next
  case (Cons ev evs)
  have d: "duration (ev # evs) = duration [ev] + duration evs" by (rule duration_Cons)
  with Cons.prems have "now s + duration [ev] < fst x" by simp
  from step_timer_survives [OF Cons.prems(1) this]
  have 1: "x \<in> set (timers (step s ev))" "now (step s ev) = now s + duration [ev]"
    "buttons (step s ev) = buttons s"
    by simp_all
  with Cons.prems(2) d have "now (step s ev) + duration evs < fst x" by simp
  from Cons.IH [OF 1(1) this] 1 d
  have "x \<in> set (timers (run evs (step s ev))) \<and>
    now (run evs (step s ev)) = now s + duration (ev # evs) \<and>
    buttons (run evs (step s ev)) = buttons s"
    by simp
  moreover have "run (ev # evs) s = run evs (step s ev)" by (simp add: run_def)
  ultimately show ?case by simp
qed

lemma executeVoiceCommand_movement:
  assumes "voice_movement c = Some d"
  shows "executeVoiceCommand c s
     = then_run (click_button d s) (\<lambda>s'. Normal (setTimeout ClickStopBtn 2000 s'))"
proof -
  let ?cmd = "toLowerCase c"
  consider (fw) "str_includes ?cmd ''forward'' \<or> str_includes ?cmd ''ahead''"
    | (lf) "\<not> (str_includes ?cmd ''forward'' \<or> str_includes ?cmd ''ahead'')"
        "str_includes ?cmd ''left''"
    | (rt) "\<not> (str_includes ?cmd ''forward'' \<or> str_includes ?cmd ''ahead'')"
        "\<not> str_includes ?cmd ''left''" "str_includes ?cmd ''right''"
    | (bk) "\<not> (str_includes ?cmd ''forward'' \<or> str_includes ?cmd ''ahead'')"
        "\<not> str_includes ?cmd ''left''" "\<not> str_includes ?cmd ''right''"
        "str_includes ?cmd ''back''"
    | (nn) "\<not> (str_includes ?cmd ''forward'' \<or> str_includes ?cmd ''ahead'')"
        "\<not> str_includes ?cmd ''left''" "\<not> str_includes ?cmd ''right''"
        "\<not> str_includes ?cmd ''back''"
    by blast
  then show ?thesis
  proof cases
    case fw
    with assms have "d = Forward" by (simp only: voice_movement_def Let_def if_True option.inject)
    with fw show ?thesis by (simp only: executeVoiceCommand_def Let_def if_True)
  next
    case lf
    with assms have "d = Left"
      by (simp only: voice_movement_def Let_def if_True if_False option.inject)
    with lf show ?thesis by (simp only: executeVoiceCommand_def Let_def if_True if_False)
  next
    case rt
    with assms have "d = Right"
      by (simp only: voice_movement_def Let_def if_True if_False option.inject)
    with rt show ?thesis by (simp only: executeVoiceCommand_def Let_def if_True if_False)
  next
    case bk
    with assms have "d = Backward"
      by (simp only: voice_movement_def Let_def if_True if_False option.inject)
    with bk show ?thesis by (simp only: executeVoiceCommand_def Let_def if_True if_False)
  next
    case nn
    with assms show ?thesis
      by (simp only: voice_movement_def Let_def if_False option.distinct)
  qed
qed

text \<open>
  On a document that has the button of the direction, the click runs no listener and the
  timer of the stop is scheduled.
\<close>

lemma voice_movement_step:
  assumes "voice_movement c = Some d" and "d \<in> set (buttons s)"
  shows "timers (step s (VoiceCommand c)) = timers s @ [(now s + 2000, ClickStopBtn)]"
    and "requests (step s (VoiceCommand c)) = requests s"
proof -
  have c: "click_button d s = Normal s"
    using assms(2) by (simp add: click_button_def)
  have e: "step s (VoiceCommand c) = setTimeout ClickStopBtn 2000 s"
    by (simp add: step_def run_voice_command_def executeVoiceCommand_movement [OF assms(1)] c
        then_run_def)
  show "timers (step s (VoiceCommand c)) = timers s @ [(now s + 2000, ClickStopBtn)]"
    and "requests (step s (VoiceCommand c)) = requests s"
    unfolding e by (simp_all add: setTimeout_def)
qed

text \<open>
  On a document without the button of the direction the lookup gives \<^verbatim>\<open>null\<close>,
  \<^verbatim>\<open>click\<close> throws before \<^verbatim>\<open>setTimeout\<close> is reached, and the caller catches: no command
  is sent and no timer is scheduled.
\<close>

lemma voice_movement_without_button:
  assumes "voice_movement c = Some d" and "d \<notin> set (buttons s)"
  shows "requests (step s (VoiceCommand c)) = requests s"
    and "timers (step s (VoiceCommand c)) = timers s"
    and "console (step s (VoiceCommand c))
           = console s @ [ErrVoiceError ''TypeError'',
               LogAIResponse ''Sorry, there was an error processing your command.'']"
proof -
  have c: "click_button d s = Thrown ''TypeError'' s"
    using assms(2) by (simp add: click_button_def)
  show "requests (step s (VoiceCommand c)) = requests s"
    and "timers (step s (VoiceCommand c)) = timers s"
    and "console (step s (VoiceCommand c))
           = console s @ [ErrVoiceError ''TypeError'',
               LogAIResponse ''Sorry, there was an error processing your command.'']"
    by (simp_all add: step_def run_voice_command_def executeVoiceCommand_movement [OF assms(1)] c
        then_run_def displayAIResponse_def log_def)
qed

lemma go_forward_is_movement: "voice_movement ''go forward'' = Some Forward"
  by code_simp

text \<open>
  C5. The claim has a movement intent of the voice schedule a stop and the next command cancel
  it. The page of the source has no direction buttons: once the voice service has answered
  ``go forward'' with success, \<^verbatim>\<open>executeVoiceCommand\<close> throws at the click on
  \<^verbatim>\<open>forward-btn\<close>, before \<^verbatim>\<open>setTimeout\<close>. No movement command is sent and the only timer is
  the one that shows the reply of the service: no stop is scheduled.
\<close>

theorem voice_movement_schedules_no_stop:
  "voice_movement ''go forward'' = Some Forward
   \<and> requests (processVoiceCommand_settle ''go forward''
         (Responded True 200 (Json \<lparr>success = True, err = None, reply = Some ''Moving forward''\<rparr>))
         (initial_state (100, 100) [])) = []
   \<and> timers (processVoiceCommand_settle ''go forward''
         (Responded True 200 (Json \<lparr>success = True, err = None, reply = Some ''Moving forward''\<rparr>))
         (initial_state (100, 100) [])) = [(1000, DisplayReply (Some ''Moving forward''))]
   \<and> console (processVoiceCommand_settle ''go forward''
         (Responded True 200 (Json \<lparr>success = True, err = None, reply = Some ''Moving forward''\<rparr>))
         (initial_state (100, 100) []))
       = [ErrVoiceError ''TypeError'',
          LogAIResponse ''Sorry, there was an error processing your command.'']"
proof -
  define s where
    "s = setTimeout (DisplayReply (Some ''Moving forward'')) 1000 (initial_state (100, 100) [])"
  have b: "Forward \<notin> set (buttons s)"
    by (simp add: s_def setTimeout_def initial_state_def)
  have s: "requests s = []" "timers s = [(1000, DisplayReply (Some ''Moving forward''))]"
    "console s = []"
    by (simp_all add: s_def setTimeout_def initial_state_def)
  have e: "processVoiceCommand_settle ''go forward''
      (Responded True 200 (Json \<lparr>success = True, err = None, reply = Some ''Moving forward''\<rparr>))
      (initial_state (100, 100) []) = step s (VoiceCommand ''go forward'')"
    by (simp add: processVoiceCommand_settle_def callApi_settle_def callApi_try_def step_def s_def)
  show ?thesis
    unfolding e
    by (simp add: voice_movement_without_button [OF go_forward_is_movement b] s
        go_forward_is_movement)
qed

section \<open>Navigation by voice\<close>

lemma no_movement_keyword:
  assumes "voice_movement c = None"
  shows "\<not> (str_includes (toLowerCase c) ''forward'' \<or> str_includes (toLowerCase c) ''ahead'')"
    and "\<not> str_includes (toLowerCase c) ''left''"
    and "\<not> str_includes (toLowerCase c) ''right''"
    and "\<not> str_includes (toLowerCase c) ''back''"
  using assms by (simp_all add: voice_movement_def Let_def split: if_splits)

lemma executeVoiceCommand_go_to:
  assumes "navigation_intent c"
  shows "executeVoiceCommand c s =
     (if dest_value (case mentioned_place c of Some p \<Rightarrow> set_dest_value p s | None \<Rightarrow> s) \<noteq> []
      then Normal (click_navigate
             (case mentioned_place c of Some p \<Rightarrow> set_dest_value p s | None \<Rightarrow> s))
      else Normal (case mentioned_place c of Some p \<Rightarrow> set_dest_value p s | None \<Rightarrow> s))"
proof -
  from assms have m: "voice_movement c = None"
    and st: "\<not> str_includes (toLowerCase c) ''stop''"
    and gt: "str_includes (toLowerCase c) ''go to''"
    by (simp_all add: navigation_intent_def)
  note n = no_movement_keyword [OF m]
  have place: "(if str_includes (toLowerCase c) ''living room'' then set_dest_value ''living-room'' s
                else if str_includes (toLowerCase c) ''kitchen'' then set_dest_value ''kitchen'' s
                else if str_includes (toLowerCase c) ''bedroom'' then set_dest_value ''bedroom'' s
                else s)
      = (case mentioned_place c of Some p \<Rightarrow> set_dest_value p s | None \<Rightarrow> s)"
    by (simp add: mentioned_place_def Let_def)
  have "executeVoiceCommand c s =
     (if dest_value (if str_includes (toLowerCase c) ''living room'' then set_dest_value ''living-room'' s
                else if str_includes (toLowerCase c) ''kitchen'' then set_dest_value ''kitchen'' s
                else if str_includes (toLowerCase c) ''bedroom'' then set_dest_value ''bedroom'' s
                else s) \<noteq> []
      then Normal (click_navigate (if str_includes (toLowerCase c) ''living room'' then set_dest_value ''living-room'' s
                else if str_includes (toLowerCase c) ''kitchen'' then set_dest_value ''kitchen'' s
                else if str_includes (toLowerCase c) ''bedroom'' then set_dest_value ''bedroom'' s
                else s))
      else Normal (if str_includes (toLowerCase c) ''living room'' then set_dest_value ''living-room'' s
                else if str_includes (toLowerCase c) ''kitchen'' then set_dest_value ''kitchen'' s
                else if str_includes (toLowerCase c) ''bedroom'' then set_dest_value ''bedroom'' s
                else s))"
    using n st gt by (simp only: executeVoiceCommand_def Let_def if_True if_False)
  then show ?thesis by (simp only: place)
qed

lemma mentioned_place_nonempty: "mentioned_place c = Some p \<Longrightarrow> p \<noteq> []"
  by (auto simp add: mentioned_place_def Let_def split: if_splits)

lemma startNavigation_selected:
  assumes "dest_value s \<noteq> []"
  shows "requests (startNavigation s) = requests s @ [navigate_request (dest_value s)]"
    and "dest_value (startNavigation s) = dest_value s"
  using assms
  by (simp_all add: startNavigation_def Let_def callApi_send_def log_def navigate_request_def
      baseUrl_def endpoint_map_def)

text \<open>
  C8, amended. For an utterance with ``go to'' and none of the keywords that the earlier
  rules look for (forward, ahead, left, right, back, stop): when it mentions the living room,
  the kitchen or the bedroom and the destination select has the option of that place, the
  select takes that value and one navigate request with that destination is sent; when the
  select has no such option, its value becomes empty and nothing is sent; when it mentions
  none of the three places and no destination is selected, the state of the page is
  unchanged.
\<close>

theorem go_to_navigates_to_known_place:
  assumes "navigation_intent c"
  shows "case mentioned_place c of
           Some p \<Rightarrow>
             if p \<in> set (dest_options s)
             then requests (step s (VoiceCommand c)) = requests s @ [navigate_request p]
                  \<and> dest_value (step s (VoiceCommand c)) = p
             else requests (step s (VoiceCommand c)) = requests s
                  \<and> dest_value (step s (VoiceCommand c)) = []
         | None \<Rightarrow> dest_value s = [] \<longrightarrow> step s (VoiceCommand c) = s"
proof (cases "mentioned_place c")
  case None
  then show ?thesis
    by (simp add: step_def run_voice_command_def executeVoiceCommand_go_to [OF assms])
next
  case (Some p)
  note ne = mentioned_place_nonempty [OF Some]
  show ?thesis
  proof (cases "p \<in> set (dest_options s)")
    case True
    then have v: "dest_value (set_dest_value p s) = p" "requests (set_dest_value p s) = requests s"
      by (simp_all add: set_dest_value_def)
    with ne have sel: "dest_value (set_dest_value p s) \<noteq> []" by simp
    from Some True ne show ?thesis
      by (simp add: step_def run_voice_command_def executeVoiceCommand_go_to [OF assms]
          click_navigate_def startNavigation_selected [OF sel] v)
  next
    case False
    then have v: "dest_value (set_dest_value p s) = []" "requests (set_dest_value p s) = requests s"
      by (simp_all add: set_dest_value_def)
    from Some False show ?thesis
      by (simp add: step_def run_voice_command_def executeVoiceCommand_go_to [OF assms] v)
  qed
qed

lemma kitchen_intent:
  "navigation_intent ''Go to the kitchen''" "mentioned_place ''Go to the kitchen'' = Some ''kitchen''"
  by code_simp+

lemma garage_intent:
  "navigation_intent ''go to the garage''" "mentioned_place ''go to the garage'' = None"
  by code_simp+

theorem go_to_navigates_to_known_place_witness:
  "requests (step (initial_state (100, 100) []) (VoiceCommand ''Go to the kitchen''))
     = [navigate_request ''kitchen'']
   \<and> dest_value (step (initial_state (100, 100) []) (VoiceCommand ''Go to the kitchen''))
     = ''kitchen''
   \<and> requests (step ((initial_state (100, 100) [])\<lparr>dest_options := [[], ''bedroom'']\<rparr>)
        (VoiceCommand ''Go to the kitchen'')) = []
   \<and> step (initial_state (100, 100) []) (VoiceCommand ''go to the garage'')
     = initial_state (100, 100) []"
proof -
  let ?i = "initial_state (100, 100) []"
  let ?j = "?i\<lparr>dest_options := [[], ''bedroom'']\<rparr>"
  have o: "''kitchen'' \<in> set (dest_options ?i)" "requests ?i = []" "dest_value ?i = []"
    "''kitchen'' \<notin> set (dest_options ?j)" "requests ?j = []"
    by (simp_all add: initial_state_def)
  from go_to_navigates_to_known_place [OF kitchen_intent(1), of ?i]
    go_to_navigates_to_known_place [OF kitchen_intent(1), of ?j]
    go_to_navigates_to_known_place [OF garage_intent(1), of ?i]
  show ?thesis
    unfolding kitchen_intent(2) garage_intent(2) using o by simp
qed

lemma kitchen_on_the_right: "voice_movement ''go to the kitchen on the right'' = Some Right"
  by code_simp

lemma kitchen_on_the_right_go_to:
  "str_includes (toLowerCase ''go to the kitchen on the right'') ''go to''"
  "mentioned_place ''go to the kitchen on the right'' = Some ''kitchen''"
  by code_simp+

text \<open>
  C8, as stated, has every utterance with ``go to'' and a known place navigate. The movement
  rules come first: ``go to the kitchen on the right'' takes the rule of ``right'', which
  throws at the click on the page of the source and schedules a stop on a page with the
  button; no navigate request is sent on either.
\<close>

theorem go_to_with_movement_keyword_moves:
  "str_includes (toLowerCase ''go to the kitchen on the right'') ''go to''
   \<and> mentioned_place ''go to the kitchen on the right'' = Some ''kitchen''
   \<and> ''kitchen'' \<in> set (dest_options (initial_state (100, 100) []))
   \<and> requests (step (initial_state (100, 100) [])
        (VoiceCommand ''go to the kitchen on the right'')) = []
   \<and> requests (step (initial_state (100, 100) all_buttons)
        (VoiceCommand ''go to the kitchen on the right'')) = []
   \<and> timers (step (initial_state (100, 100) all_buttons)
        (VoiceCommand ''go to the kitchen on the right'')) = [(2000, ClickStopBtn)]"
proof -
  let ?i = "initial_state (100, 100) all_buttons"
  let ?j = "initial_state (100, 100) []"
  have nb: "Right \<notin> set (buttons ?j)" "requests ?j = []"
    "''kitchen'' \<in> set (dest_options ?j)"
    by (simp_all add: initial_state_def)
  have q: "requests (step ?j (VoiceCommand ''go to the kitchen on the right'')) = []"
    by (simp add: voice_movement_without_button(1) [OF kitchen_on_the_right nb(1)] nb(2))
  have b: "Right \<in> set (buttons ?i)"
    by (simp add: initial_state_def all_buttons_def)
  have i: "requests ?i = []" "timers ?i = []" "now ?i = 0"
    by (simp_all add: initial_state_def)
  have r: "requests (step ?i (VoiceCommand ''go to the kitchen on the right'')) = []"
    "timers (step ?i (VoiceCommand ''go to the kitchen on the right'')) = [(2000, ClickStopBtn)]"
    by (simp_all add: voice_movement_step [OF kitchen_on_the_right b] i)
  show ?thesis
    unfolding r q using kitchen_on_the_right_go_to nb(3) by simp
qed

text \<open>
  When the utterance names none of the three places the select keeps its value, and
  \<^verbatim>\<open>if (destinationSelect.value)\<close> looks at that value: a destination chosen earlier is
  navigated to.
\<close>

lemma stale_destination_is_navigated:
  "requests (step ((initial_state (100, 100) [])\<lparr>dest_value := ''bedroom''\<rparr>)
      (VoiceCommand ''go to the garage'')) = [navigate_request ''bedroom'']"
proof -
  let ?s = "(initial_state (100, 100) [])\<lparr>dest_value := ''bedroom''\<rparr>"
  have sel: "dest_value ?s \<noteq> []" by simp
  show ?thesis
    by (simp add: step_def run_voice_command_def executeVoiceCommand_go_to [OF garage_intent(1)]
        garage_intent(2) click_navigate_def startNavigation_selected [OF sel])
       (simp add: initial_state_def)
qed

end
